theory Spec2Isabelle
  imports Main "HOL-Library.Word" "HOL-Library.Sublist"
begin

section \<open>Strings and paths\<close>

text \<open>
  The updater (\<^verbatim>\<open>main.go\<close>) fetches a manifest of paths and digests, compares the
  files of the working directory with it, removes the files the manifest does not
  name and downloads the missing and the changed ones; with \<^verbatim>\<open>-createRepo\<close> it
  builds the manifest of a directory. The second source file is an earlier state of
  the same program; the model follows \<^verbatim>\<open>main.go\<close>.

  Go strings are modelled as \<^typ>\<open>string\<close>, bytes as 8-bit words. The functions of
  Go's standard library that the program calls (\<^verbatim>\<open>strings\<close>, \<^verbatim>\<open>path\<close>,
  \<^verbatim>\<open>path/filepath\<close> on a Unix system) are written out after their documentation,
  under the names the program calls them by.
\<close>

type_synonym byte = "8 word"

text \<open>\<^verbatim>\<open>strings.Split(s, sep)\<close> for a separator of one character: the pieces of \<open>s\<close>
  between the separators. The result is never empty (the first case of the inner
  \<open>case\<close> is never taken).\<close>

fun Split :: "char \<Rightarrow> string \<Rightarrow> string list" where
  "Split sep [] = [[]]"
| "Split sep (c # cs) =
     (if c = sep then [] # Split sep cs
      else (case Split sep cs of
              [] \<Rightarrow> [[c]]
            | piece # pieces \<Rightarrow> (c # piece) # pieces))"

text \<open>\<^verbatim>\<open>strings.Join(elems, "/")\<close>.\<close>

fun joinSlash :: "string list \<Rightarrow> string" where
  "joinSlash [] = []"
| "joinSlash [p] = p"
| "joinSlash (p # q # ps) = p @ CHR ''/'' # joinSlash (q # ps)"

text \<open>\<^verbatim>\<open>strings.HasPrefix\<close> is \<^const>\<open>prefix\<close>; \<^verbatim>\<open>strings.Contains(s, substr)\<close> asks
  whether \<open>substr\<close> occurs anywhere in \<open>s\<close>.\<close>

fun Contains :: "string \<Rightarrow> string \<Rightarrow> bool" where
  "Contains [] substr = (substr = [])"
| "Contains (c # cs) substr = (prefix substr (c # cs) \<or> Contains cs substr)"

text \<open>
  \<^verbatim>\<open>path.Clean\<close> (and \<^verbatim>\<open>filepath.Clean\<close> on Unix) reads the path element by element
  and keeps a stack of the elements of the result: an empty element and \<open>.\<close> are
  dropped, \<open>..\<close> removes the element before it, is dropped at the root of a rooted path
  and is kept at the start of a relative one. The stack is held top first.
\<close>

fun cleanStep :: "bool \<Rightarrow> string list \<Rightarrow> string \<Rightarrow> string list" where
  "cleanStep rooted out c =
     (if c = [] \<or> c = ''.'' then out
      else if c = ''..'' then
        (case out of
           [] \<Rightarrow> (if rooted then [] else [''..''])
         | p # ps \<Rightarrow> (if p = ''..'' then ''..'' # out else ps))
      else c # out)"

definition IsAbs :: "string \<Rightarrow> bool" where
  "IsAbs path = prefix ''/'' path"

definition cleanElems :: "bool \<Rightarrow> string \<Rightarrow> string list" where
  "cleanElems rooted path = rev (foldl (cleanStep rooted) [] (Split CHR ''/'' path))"

definition Clean :: "string \<Rightarrow> string" where
  "Clean path =
     (if path = [] then ''.''
      else if IsAbs path then CHR ''/'' # joinSlash (cleanElems True path)
      else if cleanElems False path = [] then ''.''
      else joinSlash (cleanElems False path))"

text \<open>\<^verbatim>\<open>filepath.Join\<close>: the elements from the first non-empty one on, joined with
  slashes and cleaned; the empty string when every element is empty.\<close>

definition Join :: "string list \<Rightarrow> string" where
  "Join elem =
     (case dropWhile (\<lambda>e. e = []) elem of
        [] \<Rightarrow> []
      | e # es \<Rightarrow> Clean (joinSlash (e # es)))"

text \<open>\<^verbatim>\<open>filepath.Abs\<close>: an absolute path is cleaned; a relative one is joined to the
  working directory, and the call fails when \<^verbatim>\<open>os.Getwd\<close> fails. The first argument is
  what \<^verbatim>\<open>os.Getwd\<close> returns (\<open>None\<close> for its error).\<close>

definition Abs :: "string option \<Rightarrow> string \<Rightarrow> string option" where
  "Abs getwd path =
     (if IsAbs path then Some (Clean path)
      else case getwd of None \<Rightarrow> None | Some wd \<Rightarrow> Some (Join [wd, path]))"

text \<open>\<^verbatim>\<open>filepath.Dir\<close>: the path up to and including its last slash, cleaned.\<close>

definition Dir :: "string \<Rightarrow> string" where
  "Dir path = Clean (rev (dropWhile (\<lambda>c. c \<noteq> CHR ''/'') (rev path)))"

text \<open>\<^verbatim>\<open>filepath.ToSlash\<close> replaces the separator of the system by a slash: on a Unix
  system it returns its argument.\<close>

definition ToSlash :: "string \<Rightarrow> string" where
  "ToSlash path = path"

section \<open>The manifest\<close>

record repository =
  DownloadRoot :: string
  Files :: "string list list"

record repositoryFile =
  Name :: string
  Hash :: string

section \<open>The environment\<close>

text \<open>
  Everything outside the program is an explicit value. The file system is a list of
  nodes, each under the elements of its absolute path, in the order in which a walk
  meets them; the root directory is always there. Paths are looked up by their text, as
  \<^verbatim>\<open>path.Clean\<close> reads them: the model has no symbolic links. A call may be refused
  (a permission, a lock), which the environment decides by the kind of call and the node.
\<close>

datatype node = File "byte list" | Directory

type_synonym filesystem = "(string list \<times> node) list"

datatype operation = Reading | Removing | Creating | MakingDir

text \<open>A JSON document, as \<^verbatim>\<open>encoding/json\<close> sees it after reading the bytes.\<close>

datatype json =
    JNull
  | JBool bool
  | JNumber int
  | JString string
  | JArray "json list"
  | JObject "(string \<times> json) list"

text \<open>An HTTP response: the status, the bytes the body delivers, and whether reading the
  body ends in an error after them.\<close>

record response =
  StatusCode :: nat
  Body :: "byte list"
  BodyError :: bool

record env =
  repoURL :: string
  Getwd :: "string option"
  httpGet :: "string \<Rightarrow> response option"
  refused :: "operation \<Rightarrow> string list \<Rightarrow> bool"
  sha1 :: "byte list \<Rightarrow> byte list"
  jsonParse :: "byte list \<Rightarrow> json option"
  jsonMarshal :: "repository \<Rightarrow> byte list"

text \<open>What the program prints and the calls it makes to the operating system and the
  network, in the order in which they happen.\<close>

datatype event =
    Print string
  | EvOpen string
  | EvStat string
  | EvWalk string
  | EvRemoveAll string
  | EvMkdirAll string
  | EvOpenFile string
  | EvWrite string "byte list"
  | EvGet string

record state =
  fs :: filesystem
  trace :: "event list"

text \<open>\<^verbatim>\<open>fmt.Println\<close> writes its operands with spaces between them and a newline.\<close>

fun spaced :: "string list \<Rightarrow> string" where
  "spaced [] = []"
| "spaced [s] = s"
| "spaced (s # t # ts) = s @ CHR '' '' # spaced (t # ts)"

definition Println :: "string list \<Rightarrow> event" where
  "Println operands = Print (spaced operands @ [CHR 0x0A])"

text \<open>The decimal digits of a number, for \<^verbatim>\<open>%d\<close> and for a status code.\<close>

fun showNat :: "nat \<Rightarrow> string" where
  "showNat n =
     (if n < 10 then [''0123456789'' ! n]
      else showNat (n div 10) @ [''0123456789'' ! (n mod 10)])"

declare showNat.simps [simp del]

subsection \<open>The file system calls\<close>

text \<open>The node a path names: the elements of its absolute, cleaned form. The empty path
  names nothing.\<close>

definition resolve :: "string option \<Rightarrow> string \<Rightarrow> string list option" where
  "resolve getwd name =
     (if name = [] then None
      else case Abs getwd name of
             None \<Rightarrow> None
           | Some absolute \<Rightarrow> Some (cleanElems True absolute))"

definition lookupNode :: "filesystem \<Rightarrow> string list \<Rightarrow> node option" where
  "lookupNode files k = (if k = [] then Some Directory else map_of files k)"

text \<open>An open file: the bytes not yet read of a regular file, or a directory, which
  \<^verbatim>\<open>os.Open\<close> opens as well and whose reads fail.\<close>

datatype handle = FileHandle "byte list" | DirHandle

datatype openResult = Opened handle | IsNotExist | OtherError

definition osOpen :: "env \<Rightarrow> filesystem \<Rightarrow> string \<Rightarrow> openResult" where
  "osOpen e files name =
     (case resolve (Getwd e) name of
        None \<Rightarrow> IsNotExist
      | Some k \<Rightarrow>
          (case lookupNode files k of
             None \<Rightarrow> IsNotExist
           | Some n \<Rightarrow>
               if refused e Reading k then OtherError
               else (case n of File bs \<Rightarrow> Opened (FileHandle bs) | Directory \<Rightarrow> Opened DirHandle)))"

text \<open>\<^verbatim>\<open>os.Stat\<close>, as far as the program looks at it: does the path exist.\<close>

definition osStat :: "env \<Rightarrow> filesystem \<Rightarrow> string \<Rightarrow> bool" where
  "osStat e files name =
     (case resolve (Getwd e) name of
        None \<Rightarrow> False
      | Some k \<Rightarrow> lookupNode files k \<noteq> None)"

text \<open>
  \<^verbatim>\<open>filepath.Walk\<close> calls its function on the root, with the root as it was given, and
  on every node below it, with the path of the parent joined to the name. Here it is the
  list of the visits, each a path and whether the node is a directory; \<open>None\<close> when the
  root cannot be found, in which case Walk passes no file information to the function.
\<close>

definition walkPath :: "string \<Rightarrow> string list \<Rightarrow> string" where
  "walkPath root rel = foldl (\<lambda>parent name. Join [parent, name]) root rel"

definition filepathWalk :: "env \<Rightarrow> filesystem \<Rightarrow> string \<Rightarrow> (string \<times> bool) list option" where
  "filepathWalk e files root =
     (case resolve (Getwd e) root of
        None \<Rightarrow> None
      | Some k \<Rightarrow>
          (case lookupNode files k of
             None \<Rightarrow> None
           | Some (File bs) \<Rightarrow> Some [(root, False)]
           | Some Directory \<Rightarrow>
               Some ((root, True) #
                 map (\<lambda>(k', n). (walkPath root (drop (length k) k'), n = Directory))
                   (filter (\<lambda>(k', n). strict_prefix k k') files))))"

text \<open>\<^verbatim>\<open>os.RemoveAll\<close> removes the node and all below it; a path that names nothing is
  no error. \<open>None\<close> is its error.\<close>

definition osRemoveAll :: "env \<Rightarrow> filesystem \<Rightarrow> string \<Rightarrow> filesystem option" where
  "osRemoveAll e files path =
     (case resolve (Getwd e) path of
        None \<Rightarrow> Some files
      | Some k \<Rightarrow>
          if lookupNode files k \<noteq> None \<and> refused e Removing k then None
          else Some (filter (\<lambda>(k', n). \<not> prefix k k') files))"

text \<open>\<^verbatim>\<open>os.MkdirAll\<close> creates the directory and the missing ones above it, and fails
  when a file is in the way.\<close>

definition osMkdirAll :: "env \<Rightarrow> filesystem \<Rightarrow> string \<Rightarrow> filesystem option" where
  "osMkdirAll e files path =
     (case resolve (Getwd e) path of
        None \<Rightarrow> None
      | Some k \<Rightarrow>
          if list_ex (\<lambda>p. case lookupNode files p of Some (File bs) \<Rightarrow> True | _ \<Rightarrow> False) (prefixes k)
          then None
          else if lookupNode files k = Some Directory then Some files
          else if refused e MakingDir k then None
          else Some (files @ map (\<lambda>p. (p, Directory))
                               (filter (\<lambda>p. lookupNode files p = None) (prefixes k))))"

definition writeFile :: "filesystem \<Rightarrow> string list \<Rightarrow> byte list \<Rightarrow> filesystem" where
  "writeFile files k bs =
     (if map_of files k = None then files @ [(k, File bs)]
      else map (\<lambda>(k', n). if k' = k then (k', File bs) else (k', n)) files)"

text \<open>\<^verbatim>\<open>os.OpenFile(name, os.O_RDWR|os.O_CREATE|os.O_TRUNC, 0644)\<close>: the file is created
  or emptied. \<open>None\<close> is its error; otherwise the node of the file and the new file
  system.\<close>

definition osOpenFile :: "env \<Rightarrow> filesystem \<Rightarrow> string \<Rightarrow> (string list \<times> filesystem) option" where
  "osOpenFile e files name =
     (case resolve (Getwd e) name of
        None \<Rightarrow> None
      | Some k \<Rightarrow>
          if k = [] then None
          else if lookupNode files (butlast k) \<noteq> Some Directory then None
          else if lookupNode files k = Some Directory then None
          else if refused e Creating k then None
          else Some (k, writeFile files k []))"

section \<open>The path check\<close>

text \<open>
  \<^verbatim>\<open>HasValidPath\<close> (main.go, lines 31 to 40). The error of \<^verbatim>\<open>os.Getwd\<close> is dropped
  there, which leaves the empty string in \<^verbatim>\<open>currentPath\<close>. The result is the boolean
  and what the call prints.
\<close>

definition HasValidPath :: "string option \<Rightarrow> repositoryFile \<Rightarrow> bool \<times> event list" where
  "HasValidPath getwd f =
     (let currentPath = (case getwd of None \<Rightarrow> [] | Some wd \<Rightarrow> wd)
      in case Abs getwd (Name f) of
           None \<Rightarrow> (False, [Println [''Unable to resolve path for'', Name f]])
         | Some absolutePath \<Rightarrow>
             (let cleaned = Clean absolutePath
              in (Contains cleaned currentPath, [])))"

text \<open>The reading of the specification: a resolved path lies in the working tree when
  the elements of the working directory are the first elements of the path.\<close>

definition insideTree :: "string \<Rightarrow> string \<Rightarrow> bool" where
  "insideTree wd resolved = prefix (cleanElems True wd) (cleanElems True resolved)"

section \<open>The hasher\<close>

text \<open>
  \<^verbatim>\<open>f.Read(data)\<close>: the number of bytes read, the error, the buffer and the file after
  the call. A regular file fills the start of the buffer with its next bytes and leaves
  the rest of the buffer as it was; at its end it reports \<^verbatim>\<open>io.EOF\<close>. A directory
  reports an error that is not \<^verbatim>\<open>io.EOF\<close>, every time.
\<close>

datatype readError = NoError | EOF | EISDIR

fun fRead :: "handle \<Rightarrow> byte list \<Rightarrow> nat \<times> readError \<times> byte list \<times> handle" where
  "fRead DirHandle data = (0, EISDIR, data, DirHandle)"
| "fRead (FileHandle rest) data =
     (if data = [] then (0, NoError, data, FileHandle rest)
      else if rest = [] then (0, EOF, data, FileHandle rest)
      else let n = min (length data) (length rest)
           in (n, NoError, take n rest @ drop n data, FileHandle (drop n rest)))"

text \<open>
  The loop of \<^verbatim>\<open>calculateHash\<close> (main.go, lines 296 to 302). It drops the count that
  \<^verbatim>\<open>Read\<close> returns, leaves only on \<^verbatim>\<open>io.EOF\<close>, and hands the whole buffer to
  \<^verbatim>\<open>hash.Write\<close>. \<open>written\<close> is all that the hash has been given so far. The loop
  need not end, so its result is an option: \<open>None\<close> when it runs forever.
\<close>

partial_function (option) hashLoop :: "handle \<Rightarrow> byte list \<Rightarrow> byte list \<Rightarrow> byte list option" where
  "hashLoop f data written =
     (case fRead f data of (n, readError, data', f') \<Rightarrow>
        if readError = EOF then Some written
        else hashLoop f' data' (written @ data'))"

declare hashLoop.simps [code]

text \<open>\<^verbatim>\<open>hex.EncodeToString\<close>: two lowercase digits for each byte.\<close>

definition hexDigit :: "nat \<Rightarrow> char" where
  "hexDigit n = ''0123456789abcdef'' ! n"

definition EncodeToString :: "byte list \<Rightarrow> string" where
  "EncodeToString src = concat (map (\<lambda>b. [hexDigit (unat b div 16), hexDigit (unat b mod 16)]) src)"

text \<open>\<^verbatim>\<open>calculateHash\<close> (main.go, lines 292 to 305). The first argument is SHA-1, the
  digest of a byte sequence; the buffer is \<^verbatim>\<open>make([]byte, 1024*1024)\<close>, all zero.\<close>

definition calculateHash :: "(byte list \<Rightarrow> byte list) \<Rightarrow> handle \<Rightarrow> string option" where
  "calculateHash sha1Sum f =
     map_option (\<lambda>written. EncodeToString (sha1Sum written))
       (hashLoop f (replicate (1024 * 1024) 0) [])"

text \<open>\<^verbatim>\<open>CheckHash\<close> (main.go, lines 42 to 44).\<close>

definition CheckHash :: "(byte list \<Rightarrow> byte list) \<Rightarrow> repositoryFile \<Rightarrow> handle \<Rightarrow> bool option" where
  "CheckHash sha1Sum f i = map_option (\<lambda>calculated. calculated = Hash f) (calculateHash sha1Sum i)"

section \<open>Reading the manifest\<close>

text \<open>
  \<^verbatim>\<open>json.Unmarshal(repositoryBytes, &data)\<close> into a \<^verbatim>\<open>repository\<close>, after the
  documentation of \<^verbatim>\<open>encoding/json\<close>: bytes that are no JSON document, and a document
  that is no object, leave \<open>data\<close> as it is; a member is matched to a field by its name
  without regard to case; a value of the wrong type leaves the field (or, in an array,
  the element) as it is and decoding goes on; \<open>null\<close> leaves a string as it is and
  makes a slice \<open>nil\<close>. The error that \<^verbatim>\<open>Unmarshal\<close> returns is dropped by the program
  (line 276), so only the decoded value is modelled.
\<close>

fun decodeString :: "string \<Rightarrow> json \<Rightarrow> string" where
  "decodeString cur (JString s) = s"
| "decodeString cur other = cur"

fun decodeEntry :: "json \<Rightarrow> string list" where
  "decodeEntry (JArray xs) = map (decodeString []) xs"
| "decodeEntry other = []"

fun decodeFiles :: "string list list \<Rightarrow> json \<Rightarrow> string list list" where
  "decodeFiles cur (JArray xs) = map decodeEntry xs"
| "decodeFiles cur JNull = []"
| "decodeFiles cur other = cur"

definition asciiLower :: "char \<Rightarrow> char" where
  "asciiLower c =
     (case map_of (zip ''ABCDEFGHIJKLMNOPQRSTUVWXYZ'' ''abcdefghijklmnopqrstuvwxyz'') c of
        None \<Rightarrow> c
      | Some lower \<Rightarrow> lower)"

definition unmarshalMember :: "repository \<Rightarrow> string \<times> json \<Rightarrow> repository" where
  "unmarshalMember data member =
     (if map asciiLower (fst member) = ''downloadroot''
      then data\<lparr>DownloadRoot := decodeString (DownloadRoot data) (snd member)\<rparr>
      else if map asciiLower (fst member) = ''files''
      then data\<lparr>Files := decodeFiles (Files data) (snd member)\<rparr>
      else data)"

fun Unmarshal :: "json option \<Rightarrow> repository \<Rightarrow> repository" where
  "Unmarshal (Some (JObject members)) data = foldl unmarshalMember data members"
| "Unmarshal other data = data"

text \<open>The loop over \<^verbatim>\<open>data.Files\<close> (main.go, lines 278 to 288): the entries read so
  far and what was printed.\<close>

fun readEntries :: "string list list \<Rightarrow> repositoryFile list \<times> event list \<Rightarrow> repositoryFile list \<times> event list" where
  "readEntries [] acc = acc"
| "readEntries (entry # rest) (files, out) =
     (if length entry \<noteq> 2
      then readEntries rest (files, out @ [Println [''Files entry does not contain 2 items'']])
      else readEntries rest (files @ [\<lparr>Name = entry ! 0, Hash = entry ! 1\<rparr>], out))"

text \<open>
  \<^verbatim>\<open>getRepositoryContent\<close> (main.go, lines 254 to 290): the download root, the list of
  files and the events of the call. A Go slice that was never appended to is \<open>nil\<close>,
  and one that was is not: the returned list is \<open>nil\<close> exactly when it is empty here.
\<close>

definition getRepositoryContent :: "env \<Rightarrow> (string \<times> repositoryFile list) \<times> event list" where
  "getRepositoryContent e =
     (case httpGet e (repoURL e) of
        None \<Rightarrow> (([], []), [EvGet (repoURL e), Println [''connection error'']])
      | Some response \<Rightarrow>
          if StatusCode response \<noteq> 200
          then (([], []),
                [EvGet (repoURL e),
                 Println [''Unable to get repository data from'', repoURL e],
                 Println [''HTTP status code'', showNat (StatusCode response)]])
          else if BodyError response
          then (([], []), [EvGet (repoURL e), Println [''read error'']])
          else
            (let data = Unmarshal (jsonParse e (Body response)) \<lparr>DownloadRoot = [], Files = []\<rparr>;
                 read = readEntries (Files data) ([], [])
             in ((DownloadRoot data, fst read), EvGet (repoURL e) # snd read)))"

section \<open>The reconciler\<close>

text \<open>\<^verbatim>\<open>stringInSlice\<close> (main.go, lines 95 to 102).\<close>

fun stringInSlice :: "string \<Rightarrow> string list \<Rightarrow> bool" where
  "stringInSlice a [] = False"
| "stringInSlice a (b # list) = (if b = a then True else stringInSlice a list)"

text \<open>
  One round of the first loop of \<^verbatim>\<open>updateFiles\<close> (main.go, lines 120 to 155), on the
  files to download, the directories to prune and the events so far. \<open>None\<close>: the
  round does not end, because hashing the opened file does not.
\<close>

definition checkEntry ::
  "env \<Rightarrow> filesystem \<Rightarrow> repositoryFile \<Rightarrow> repositoryFile list \<times> string list \<times> event list
     \<Rightarrow> (repositoryFile list \<times> string list \<times> event list) option" where
  "checkEntry e files rf acc =
     (case acc of (downloadFiles, directoriesToPrune, out) \<Rightarrow>
        (case HasValidPath (Getwd e) rf of (valid, printed) \<Rightarrow>
           if \<not> valid then Some (downloadFiles, directoriesToPrune, out @ printed)
           else
             (let pathParts = Split CHR ''/'' (Name rf);
                  directoriesToPrune' =
                    (if \<not> stringInSlice (pathParts ! 0) directoriesToPrune
                     then directoriesToPrune @ [pathParts ! 0] else directoriesToPrune);
                  out' = out @ printed @ [Print (Name rf @ '' : ''), EvOpen (Name rf)]
              in case osOpen e files (Name rf) of
                   IsNotExist \<Rightarrow>
                     Some (downloadFiles @ [rf], directoriesToPrune', out' @ [Println [''Download'']])
                 | OtherError \<Rightarrow>
                     Some (downloadFiles, directoriesToPrune', out' @ [Println [''Skip:'', ''open error'']])
                 | Opened existingFile \<Rightarrow>
                     (case CheckHash (sha1 e) rf existingFile of
                        None \<Rightarrow> None
                      | Some True \<Rightarrow>
                          Some (downloadFiles, directoriesToPrune', out' @ [Println [''OK'']])
                      | Some False \<Rightarrow>
                          Some (downloadFiles @ [rf], directoriesToPrune',
                                out' @ [Println [''Download (Changed)'']])))))"

fun checkExisting ::
  "env \<Rightarrow> filesystem \<Rightarrow> repositoryFile list \<Rightarrow> repositoryFile list \<times> string list \<times> event list
     \<Rightarrow> (repositoryFile list \<times> string list \<times> event list) option" where
  "checkExisting e files [] acc = Some acc"
| "checkExisting e files (rf # rest) acc =
     (case checkEntry e files rf acc of
        None \<Rightarrow> None
      | Some acc' \<Rightarrow> checkExisting e files rest acc')"

text \<open>
  The function that the pruning walk calls on each visit (main.go, lines 165 to 183):
  the state after it, and whether the walk goes on; it does not when the function
  returns the error of \<^verbatim>\<open>os.RemoveAll\<close>.
\<close>

definition belongsToRepo :: "repositoryFile list \<Rightarrow> string \<Rightarrow> bool" where
  "belongsToRepo listOfRepositoryFiles currentPathSlash =
     foldl (\<lambda>belongs rf. if currentPathSlash = Name rf then True else belongs)
       False listOfRepositoryFiles"

definition pruneVisit :: "env \<Rightarrow> repositoryFile list \<Rightarrow> string \<times> bool \<Rightarrow> state \<Rightarrow> state \<times> bool" where
  "pruneVisit e listOfRepositoryFiles visit s =
     (case visit of (currentPath, isDir) \<Rightarrow>
        if isDir then (s, True)
        else
          (let currentPathSlash = ToSlash currentPath
           in if \<not> belongsToRepo listOfRepositoryFiles currentPathSlash
              then
                (let out = trace s @ [Println [''Removing'', currentPathSlash], EvRemoveAll currentPathSlash]
                 in case osRemoveAll e (fs s) currentPathSlash of
                      None \<Rightarrow> (s\<lparr>trace := out\<rparr>, False)
                    | Some files' \<Rightarrow> (s\<lparr>fs := files', trace := out\<rparr>, True))
              else (s, True)))"

fun pruneWalk :: "env \<Rightarrow> repositoryFile list \<Rightarrow> (string \<times> bool) list \<Rightarrow> state \<Rightarrow> state" where
  "pruneWalk e listOfRepositoryFiles [] s = s"
| "pruneWalk e listOfRepositoryFiles (visit # visits) s =
     (case pruneVisit e listOfRepositoryFiles visit s of
        (s', goOn) \<Rightarrow> if goOn then pruneWalk e listOfRepositoryFiles visits s' else s')"

text \<open>
  One round of the second loop (main.go, lines 161 to 184). \<open>None\<close>: the walk cannot
  find its root and the function is called without file information, which it
  dereferences.
\<close>

definition pruneDir :: "env \<Rightarrow> repositoryFile list \<Rightarrow> string \<Rightarrow> state \<Rightarrow> state option" where
  "pruneDir e listOfRepositoryFiles dir s =
     (if \<not> osStat e (fs s) dir then Some (s\<lparr>trace := trace s @ [EvStat dir]\<rparr>)
      else case filepathWalk e (fs s) dir of
             None \<Rightarrow> None
           | Some visits \<Rightarrow>
               Some (pruneWalk e listOfRepositoryFiles visits
                       (s\<lparr>trace := trace s @ [EvStat dir, EvWalk dir]\<rparr>)))"

fun pruneDirs :: "env \<Rightarrow> repositoryFile list \<Rightarrow> string list \<Rightarrow> state \<Rightarrow> state option" where
  "pruneDirs e listOfRepositoryFiles [] s = Some s"
| "pruneDirs e listOfRepositoryFiles (dir # dirs) s =
     (case pruneDir e listOfRepositoryFiles dir s of
        None \<Rightarrow> None
      | Some s' \<Rightarrow> pruneDirs e listOfRepositoryFiles dirs s')"

text \<open>
  One round of the third loop (main.go, lines 188 to 240), on the number of errors and
  the state. After the body is written the file is read again from its start, so the
  handle that \<^verbatim>\<open>CheckHash\<close> gets holds the bytes just written.
\<close>

definition download :: "env \<Rightarrow> string \<Rightarrow> repositoryFile \<Rightarrow> nat \<times> state \<Rightarrow> (nat \<times> state) option" where
  "download e downloadRoot rf acc =
     (case acc of (downloadErrors, s) \<Rightarrow>
        (let out = trace s @ [Print (''Downloading '' @ Name rf @ '' ... ''), EvMkdirAll (Dir (Name rf))]
         in case osMkdirAll e (fs s) (Dir (Name rf)) of
              None \<Rightarrow>
                Some (downloadErrors + 1,
                      s\<lparr>trace := out @ [Println [''Unable to create directory for '', Name rf, '' : '', ''mkdir error'']]\<rparr>)
            | Some files1 \<Rightarrow>
                (let fullURL = downloadRoot @ Name rf;
                     out1 = out @ [EvGet fullURL]
                 in case httpGet e fullURL of
                      None \<Rightarrow>
                        Some (downloadErrors + 1,
                              s\<lparr>fs := files1, trace := out1 @ [Println [''connection error'']]\<rparr>)
                    | Some response \<Rightarrow>
                        if StatusCode response \<noteq> 200
                        then Some (downloadErrors + 1,
                                   s\<lparr>fs := files1,
                                     trace := out1 @ [Println [''HTTP'', showNat (StatusCode response)]]\<rparr>)
                        else
                          (let out2 = out1 @ [EvOpenFile (Name rf)]
                           in case osOpenFile e files1 (Name rf) of
                                None \<Rightarrow>
                                  Some (downloadErrors + 1,
                                        s\<lparr>fs := files1, trace := out2 @ [Println [''open error'']]\<rparr>)
                              | Some (target, files2) \<Rightarrow>
                                  (let files3 = writeFile files2 target (Body response);
                                       out3 = out2 @ [EvWrite (Name rf) (Body response)]
                                   in if BodyError response
                                      then Some (downloadErrors + 1,
                                                 s\<lparr>fs := files3, trace := out3 @ [Println [''write error'']]\<rparr>)
                                      else
                                        (case CheckHash (sha1 e) rf (FileHandle (Body response)) of
                                           None \<Rightarrow> None
                                         | Some True \<Rightarrow>
                                             Some (downloadErrors,
                                                   s\<lparr>fs := files3, trace := out3 @ [Println [''OK'']]\<rparr>)
                                         | Some False \<Rightarrow>
                                             Some (downloadErrors + 1,
                                                   s\<lparr>fs := files3,
                                                     trace := out3 @ [Println [''Checksum failed'']]\<rparr>)))))))"

fun downloadAll :: "env \<Rightarrow> string \<Rightarrow> repositoryFile list \<Rightarrow> nat \<times> state \<Rightarrow> (nat \<times> state) option" where
  "downloadAll e downloadRoot [] acc = Some acc"
| "downloadAll e downloadRoot (rf # rest) acc =
     (case download e downloadRoot rf acc of
        None \<Rightarrow> None
      | Some acc' \<Rightarrow> downloadAll e downloadRoot rest acc')"

text \<open>
  \<^verbatim>\<open>updateFiles\<close> (main.go, lines 104 to 252), up to the wait for the Enter key.
  \<open>None\<close>: the call does not return.
\<close>

definition updateFiles :: "env \<Rightarrow> state \<Rightarrow> state option" where
  "updateFiles e s =
     (case getRepositoryContent e of ((downloadRoot, listOfRepositoryFiles), fetched) \<Rightarrow>
        (let s0 = s\<lparr>trace := trace s @ [Println [''Repository:'', repoURL e]] @ fetched\<rparr>
         in if listOfRepositoryFiles = [] then Some s0
            else
              (case checkExisting e (fs s0) listOfRepositoryFiles ([], [], [Println [[]]]) of
                 None \<Rightarrow> None
               | Some (downloadFiles, directoriesToPrune, checked) \<Rightarrow>
                   (case pruneDirs e listOfRepositoryFiles directoriesToPrune
                           (s0\<lparr>trace := trace s0 @ checked
                                  @ [Println [[]], Println [''Pruning non-repository files'']]\<rparr>) of
                      None \<Rightarrow> None
                    | Some s1 \<Rightarrow>
                        (case downloadAll e downloadRoot downloadFiles
                                (0, s1\<lparr>trace := trace s1 @ [Println [[]]]\<rparr>) of
                           None \<Rightarrow> None
                         | Some (downloadErrors, s2) \<Rightarrow>
                             Some (s2\<lparr>trace := trace s2 @
                                     [Println [[]],
                                      if downloadErrors > 0
                                      then Print (''Completed with '' @ showNat downloadErrors @ '' errors'' @ [CHR 0x0A])
                                      else Println [''Done :-)''],
                                      Println [[]],
                                      Println [''Press Enter to close'']]\<rparr>))))))"

section \<open>The manifest builder\<close>

text \<open>
  The function that the walk of \<^verbatim>\<open>createRepo\<close> calls on each visit (main.go, lines 67
  to 83), on the entries collected so far and the events. The boolean tells whether
  the walk goes on: an error of \<^verbatim>\<open>os.Open\<close> ends it. \<open>None\<close>: hashing does not end.
\<close>

definition repoVisit ::
  "env \<Rightarrow> filesystem \<Rightarrow> string \<times> bool \<Rightarrow> string list list \<times> event list
     \<Rightarrow> ((string list list \<times> event list) \<times> bool) option" where
  "repoVisit e files visit acc =
     (case visit of (currentPath, isDir) \<Rightarrow>
        (case acc of (entries, out) \<Rightarrow>
           if isDir then Some (acc, True)
           else
             (case osOpen e files currentPath of
                Opened currentFile \<Rightarrow>
                  (case calculateHash (sha1 e) currentFile of
                     None \<Rightarrow> None
                   | Some hash \<Rightarrow>
                       (let currentPathSlash = ToSlash currentPath
                        in Some ((entries @ [[currentPathSlash, hash]],
                                  out @ [EvOpen currentPath, Println [currentPathSlash, '':'', hash]]),
                                 True)))
              | failed \<Rightarrow> Some ((entries, out @ [EvOpen currentPath]), False))))"

fun repoWalk ::
  "env \<Rightarrow> filesystem \<Rightarrow> (string \<times> bool) list \<Rightarrow> string list list \<times> event list
     \<Rightarrow> (string list list \<times> event list) option" where
  "repoWalk e files [] acc = Some acc"
| "repoWalk e files (visit # visits) acc =
     (case repoVisit e files visit acc of
        None \<Rightarrow> None
      | Some (acc', goOn) \<Rightarrow> if goOn then repoWalk e files visits acc' else Some acc')"

text \<open>The manifest that \<^verbatim>\<open>createRepo\<close> builds (main.go, lines 65 to 83), with the
  events of the walk. \<open>None\<close>: the call does not return; a root that does not exist
  makes the function dereference the missing file information.\<close>

definition buildRepo :: "env \<Rightarrow> filesystem \<Rightarrow> string \<Rightarrow> (repository \<times> event list) option" where
  "buildRepo e files directoryName =
     (case filepathWalk e files directoryName of
        None \<Rightarrow> None
      | Some visits \<Rightarrow>
          (case repoWalk e files visits ([], [EvWalk directoryName]) of
             None \<Rightarrow> None
           | Some (entries, out) \<Rightarrow>
               Some (\<lparr>DownloadRoot = ''https://koti.kapsi.fi/darkon/polloeskadroona/repo/'',
                      Files = entries\<rparr>, out)))"

text \<open>\<^verbatim>\<open>createRepo\<close> (main.go, lines 64 to 92). The result of \<^verbatim>\<open>ioutil.WriteFile\<close> is
  dropped by the program.\<close>

definition createRepo :: "env \<Rightarrow> string \<Rightarrow> string \<Rightarrow> state \<Rightarrow> state option" where
  "createRepo e directoryName outputName s =
     (case buildRepo e (fs s) directoryName of
        None \<Rightarrow> None
      | Some (newRepo, out) \<Rightarrow>
          (let repoBytes = jsonMarshal e newRepo;
               files' = (case osOpenFile e (fs s) outputName of
                           None \<Rightarrow> fs s
                         | Some (target, files1) \<Rightarrow> writeFile files1 target repoBytes)
           in Some (s\<lparr>fs := files',
                      trace := trace s @ out @ [EvOpenFile outputName,
                        Print (CHR 0x0A # ''Writing output to '' @ outputName @ [CHR 0x0A])]\<rparr>)))"

section \<open>Notions the results are stated with\<close>

text \<open>An event that is a call to the file system (all but printing and fetching).\<close>

fun touchesFiles :: "event \<Rightarrow> bool" where
  "touchesFiles (Print text) = False"
| "touchesFiles (EvGet url) = False"
| "touchesFiles other = True"

text \<open>The freshly declared \<^verbatim>\<open>repository{}\<close> of line 275.\<close>

definition emptyRepository :: repository where
  "emptyRepository = \<lparr>DownloadRoot = [], Files = []\<rparr>"





text \<open>The events of each of the three loops of \<^verbatim>\<open>updateFiles\<close>: checking the existing
  files, pruning, downloading. Only printing is common to them.\<close>

fun checkEvent :: "event \<Rightarrow> bool" where
  "checkEvent (Print text) = True"
| "checkEvent (EvOpen name) = True"
| "checkEvent other = False"

fun pruneEvent :: "event \<Rightarrow> bool" where
  "pruneEvent (Print text) = True"
| "pruneEvent (EvStat name) = True"
| "pruneEvent (EvWalk root) = True"
| "pruneEvent (EvRemoveAll path) = True"
| "pruneEvent other = False"

fun downloadEvent :: "event \<Rightarrow> bool" where
  "downloadEvent (Print text) = True"
| "downloadEvent (EvMkdirAll path) = True"
| "downloadEvent (EvGet url) = True"
| "downloadEvent (EvOpenFile name) = True"
| "downloadEvent (EvWrite name bytes) = True"
| "downloadEvent other = False"

fun isOpen :: "event \<Rightarrow> bool" where
  "isOpen (EvOpen name) = True"
| "isOpen other = False"

fun isRemoveAll :: "event \<Rightarrow> bool" where
  "isRemoveAll (EvRemoveAll path) = True"
| "isRemoveAll other = False"



text \<open>The path under which the walk of a directory meets the node at \<open>k\<close>, when it
  meets it: the walk starts where the directory resolves to, if there is a node.\<close>

definition walkedAs :: "string option \<Rightarrow> filesystem \<Rightarrow> string \<Rightarrow> string list \<Rightarrow> string option" where
  "walkedAs getwd files dir k =
     (case resolve getwd dir of
        None \<Rightarrow> None
      | Some base \<Rightarrow>
          if lookupNode files base = None then None
          else if prefix base k then Some (walkPath dir (drop (length base) k))
          else None)"

text \<open>A node that pruning is to remove: a regular file that the walk of one of the
  directories meets under a path that is the path of no entry of the manifest.\<close>

definition orphan ::
  "string option \<Rightarrow> filesystem \<Rightarrow> repositoryFile list \<Rightarrow> string list \<Rightarrow> string list \<times> node \<Rightarrow> bool" where
  "orphan getwd files listOfRepositoryFiles dirs entry =
     (snd entry \<noteq> Directory
      \<and> list_ex (\<lambda>dir. case walkedAs getwd files dir (fst entry) of
                          None \<Rightarrow> False
                        | Some path \<Rightarrow> path \<notin> Name ` set listOfRepositoryFiles) dirs)"

section \<open>An example environment\<close>

text \<open>
  A working directory \<open>/home/u\<close>, a manifest URL that answers with status 200 and a
  payload that parses to the given document, file URLs that answer as the second
  argument says, and a stand-in for SHA-1 that keeps the first byte of its input.
\<close>

definition exampleEnv :: "json option \<Rightarrow> (string \<Rightarrow> response option) \<Rightarrow> (operation \<Rightarrow> string list \<Rightarrow> bool) \<Rightarrow> env" where
  "exampleEnv doc server locked =
     \<lparr>repoURL = ''http://host/updater.json'',
      Getwd = Some ''/home/u'',
      httpGet = (\<lambda>url. if url = ''http://host/updater.json''
                         then Some \<lparr>StatusCode = 200, Body = [], BodyError = False\<rparr>
                         else server url),
      refused = locked,
      sha1 = take 1,
      jsonParse = (\<lambda>bytes. doc),
      jsonMarshal = (\<lambda>repo. [])\<rparr>"

definition manifestDoc :: "string \<Rightarrow> json list \<Rightarrow> json option" where
  "manifestDoc root entries =
     Some (JObject [(''DownloadRoot'', JString root), (''Files'', JArray entries)])"

definition fileEntry :: "string \<Rightarrow> string \<Rightarrow> json" where
  "fileEntry path hash = JArray [JString path, JString hash]"

text \<open>A server with three files, one of them missing, and a small tree under the working
  directory.\<close>

definition exampleServer :: "string \<Rightarrow> response option" where
  "exampleServer url =
     (if url = ''http://host/mods/b.txt'' then Some \<lparr>StatusCode = 200, Body = [0x62], BodyError = False\<rparr>
      else if url = ''http://host/mods/c.txt'' then Some \<lparr>StatusCode = 200, Body = [0x63], BodyError = False\<rparr>
      else if url = ''http://host/mods/d.txt'' then Some \<lparr>StatusCode = 404, Body = [], BodyError = False\<rparr>
      else None)"

definition exampleFiles :: filesystem where
  "exampleFiles =
     [([''home''], Directory),
      ([''home'', ''u''], Directory),
      ([''home'', ''u'', ''mods''], Directory),
      ([''home'', ''u'', ''mods'', ''a.txt''], File [0x61])]"

text \<open>A manifest of three files, and a tree that holds the first of them and a file the
  manifest does not name.\<close>

definition exampleManifest :: "json option" where
  "exampleManifest = manifestDoc ''http://host/''
     [fileEntry ''mods/a.txt'' ''61'', fileEntry ''mods/b.txt'' ''62'', fileEntry ''mods/d.txt'' ''64'']"

definition exampleTree :: filesystem where
  "exampleTree = exampleFiles @ [([''home'', ''u'', ''mods'', ''orphan.txt''], File [0x6f])]"

text \<open>A tree with a directory beside the working directory, and two manifests whose first
  entry reaches the working directory through its parent.\<close>

definition siblingTree :: filesystem where
  "siblingTree =
     [([''home''], Directory),
      ([''home'', ''u''], Directory),
      ([''home'', ''u'', ''a.txt''], File [0x61]),
      ([''home'', ''v''], Directory),
      ([''home'', ''v'', ''f''], File [0x66]),
      ([''home'', ''v'', ''g''], File [0x67])]"

definition manifestWithInvalid :: "json option" where
  "manifestWithInvalid = manifestDoc ''http://host/''
     [fileEntry ''../u/a.txt'' ''61'', fileEntry ''../v/f'' ''66'']"

definition manifestWithoutInvalid :: "json option" where
  "manifestWithoutInvalid = manifestDoc ''http://host/'' [fileEntry ''../u/a.txt'' ''61'']"

text \<open>No file server, and no call refused.\<close>

definition offline :: "string \<Rightarrow> response option" where
  "offline url = None"

definition unlocked :: "operation \<Rightarrow> string list \<Rightarrow> bool" where
  "unlocked op k = False"

text \<open>A tree outside the working directory.\<close>

definition outsideTree :: filesystem where
  "outsideTree =
     [([''home''], Directory),
      ([''home'', ''u''], Directory),
      ([''srv''], Directory),
      ([''srv'', ''repo''], Directory),
      ([''srv'', ''repo'', ''a.txt''], File [0x61])]"



section \<open>Properties of the path functions\<close>

lemma Split_not_Nil: "Split sep s \<noteq> []"
  by (induction s) (auto split: list.splits)

lemma Contains_iff: "Contains s sub \<longleftrightarrow> (\<exists>a b. s = a @ sub @ b)"
proof (induction s)
  case Nil
  then show ?case by auto
next
  case (Cons c cs)
  show ?case
  proof
    assume "Contains (c # cs) sub"
    then consider "prefix sub (c # cs)" | "Contains cs sub" by auto
    then show "\<exists>a b. c # cs = a @ sub @ b"
    proof cases
      case 1
      then obtain b where "c # cs = sub @ b" by (auto simp: prefix_def)
      then have "c # cs = [] @ sub @ b" by simp
      then show ?thesis by blast
    next
      case 2
      with Cons obtain a b where "cs = a @ sub @ b" by auto
      then have "c # cs = (c # a) @ sub @ b" by simp
      then show ?thesis by blast
    qed
  next
    assume "\<exists>a b. c # cs = a @ sub @ b"
    then obtain a b where ab: "c # cs = a @ sub @ b" by blast
    show "Contains (c # cs) sub"
    proof (cases a)
      case Nil
      with ab have "prefix sub (c # cs)" by (simp add: prefix_def)
      then show ?thesis by simp
    next
      case (Cons x a')
      with ab have "cs = a' @ sub @ b" by simp
      with Cons.IH have "Contains cs sub" by blast
      then show ?thesis by simp
    qed
  qed
qed

section \<open>The path check: results\<close>

text \<open>The half of the check that holds: a path whose cleaned absolute form starts with
  the working directory passes it.\<close>

lemma HasValidPath_inside:
  assumes "Abs (Some wd) (Name f) = Some resolved" and "prefix wd (Clean resolved)"
  shows "fst (HasValidPath (Some wd) f)"
proof -
  from assms(2) obtain rest where "Clean resolved = [] @ wd @ rest" by (auto simp: prefix_def)
  then have "Contains (Clean resolved) wd" unfolding Contains_iff by blast
  with assms(1) show ?thesis by (simp add: HasValidPath_def)
qed

text \<open>
  Claim C1, on an input where it fails. With the working directory \<open>/home/u\<close> the
  entry \<open>../u2/x\<close> resolves to \<open>/home/u2/x\<close>, which is a sibling of the working tree
  and not inside it; the text of the resolved path still contains the text
  \<open>/home/u\<close>, so \<^verbatim>\<open>HasValidPath\<close> returns true.
\<close>

theorem HasValidPath_sibling_directory:
  "Abs (Some ''/home/u'') ''../u2/x'' = Some ''/home/u2/x''
   \<and> \<not> insideTree ''/home/u'' ''/home/u2/x''
   \<and> fst (HasValidPath (Some ''/home/u'') \<lparr>Name = ''../u2/x'', Hash = ''''\<rparr>) = True"
  by (simp add: HasValidPath_def Abs_def IsAbs_def Join_def Clean_def cleanElems_def insideTree_def)

section \<open>The hasher: results\<close>

lemma hashLoop_DirHandle_aux: "hashLoop f data written = Some m \<Longrightarrow> f \<noteq> DirHandle"
  by (rule hashLoop.raw_induct [where P = "\<lambda>f data written m. f \<noteq> DirHandle"])
     (fastforce split: if_splits handle.splits)

lemma hashLoop_DirHandle: "hashLoop DirHandle data written = None"
  using hashLoop_DirHandle_aux [of DirHandle data written]
  by (cases "hashLoop DirHandle data written") auto

lemma hashLoop_FileHandle:
  "data \<noteq> [] \<Longrightarrow> \<exists>m. hashLoop (FileHandle rest) data written = Some m
      \<and> length m = length written + length data * ((length rest + length data - 1) div length data)"
proof (induction "length rest" arbitrary: rest data written rule: less_induct)
  case less
  show ?case
  proof (cases "rest = []")
    case True
    with less.prems show ?thesis by (subst hashLoop.simps) simp
  next
    case False
    define n where "n = min (length data) (length rest)"
    define data' where "data' = take n rest @ drop n data"
    have npos: "0 < n" using False less.prems by (simp add: n_def)
    have len: "length data' = length data" by (simp add: data'_def n_def)
    have ne: "data' \<noteq> []" using len less.prems by auto
    have "length (drop n rest) < length rest" using npos False by simp
    from less.hyps [OF this ne, of "written @ data'"] obtain m where
      m: "hashLoop (FileHandle (drop n rest)) data' (written @ data') = Some m"
         "length m = length (written @ data') + length data' * ((length (drop n rest) + length data' - 1) div length data')"
      by blast
    have step: "hashLoop (FileHandle rest) data written = hashLoop (FileHandle (drop n rest)) data' (written @ data')"
      using False less.prems by (subst hashLoop.simps) (simp add: Let_def n_def data'_def)
    have "length data * ((length rest - n + length data - 1) div length data) + length data
        = length data * ((length rest + length data - 1) div length data)"
    proof (cases "length data \<le> length rest")
      case True
      then have n: "n = length data" by (simp add: n_def)
      have pos: "0 < length rest" "0 < length data" using False less.prems by auto
      have "length rest + length data - 1 = (length rest - 1) + length data" using pos by arith
      then have "(length rest + length data - 1) div length data = (length rest - 1) div length data + 1"
        using pos(2) by (simp only: div_add_self2)
      moreover have "length rest - n + length data - 1 = length rest - 1" using True n by simp
      ultimately show ?thesis by simp
    next
      case f: False
      then have n: "n = length rest" by (simp add: n_def)
      have r: "0 < length rest" "length rest < length data" using False f by auto
      have "(length rest + length data - 1) div length data = 1"
      proof (rule div_nat_eqI)
        show "length data * 1 \<le> length rest + length data - 1" using r by arith
        show "length rest + length data - 1 < length data * Suc 1" using r by arith
      qed
      moreover have "(length rest - n + length data - 1) div length data = 0"
        using n less.prems by simp
      ultimately show ?thesis by simp
    qed
    with m step len show ?thesis by simp
  qed
qed

lemma hashLoop_short:
  assumes "rest \<noteq> []" "length rest \<le> length data"
  shows "hashLoop (FileHandle rest) data written = Some (written @ rest @ drop (length rest) data)"
proof -
  have d: "data \<noteq> []" using assms by auto
  have "hashLoop (FileHandle rest) data written
      = hashLoop (FileHandle []) (rest @ drop (length rest) data) (written @ rest @ drop (length rest) data)"
    using assms d by (subst hashLoop.simps) (simp add: Let_def min_def)
  also have "\<dots> = Some (written @ rest @ drop (length rest) data)"
    using assms by (subst hashLoop.simps) simp
  finally show ?thesis .
qed

lemma hashLoop_empty: "data \<noteq> [] \<Longrightarrow> hashLoop (FileHandle []) data written = Some written"
  by (subst hashLoop.simps) simp


lemma calculateHash_DirHandle: "calculateHash sha1Sum DirHandle = None"
  by (simp add: calculateHash_def hashLoop_DirHandle)

text \<open>For every stream the loop ends, and what the hash is given is a whole number of
  buffers: it is the stream itself only when the length of the stream is a multiple of
  the buffer size.\<close>

lemma hashed_message_length:
  "\<exists>m. hashLoop (FileHandle bs) (replicate (1024 * 1024) 0) [] = Some m
       \<and> length m = 1048576 * ((length bs + 1048575) div 1048576)"
proof -
  have "replicate (1024 * 1024) (0::byte) \<noteq> []" by simp
  from hashLoop_FileHandle [OF this, of bs "[]"] show ?thesis by (simp add: add.commute)
qed

text \<open>
  Claim C3, on an input where it fails: a stream of the one byte \<open>0x61\<close>. The hash is
  given the whole buffer, 1048576 bytes, of which only the first was read from the
  stream: the digest returned is that of the byte followed by 1048575 zero bytes.
\<close>

theorem calculateHash_one_byte:
  "calculateHash sha1Sum (FileHandle [0x61])
     = Some (EncodeToString (sha1Sum (0x61 # replicate 1048575 0)))"
  by (simp add: calculateHash_def hashLoop_short)

section \<open>Reading the manifest: results\<close>

lemma readEntries_eq:
  "readEntries entries (files, out) =
     (files @ map (\<lambda>entry. \<lparr>Name = entry ! 0, Hash = entry ! 1\<rparr>) (filter (\<lambda>entry. length entry = 2) entries),
      out @ map (\<lambda>entry. Println [''Files entry does not contain 2 items''])
                (filter (\<lambda>entry. length entry \<noteq> 2) entries))"
  by (induction entries arbitrary: files out) auto

lemma getRepositoryContent_quiet:
  "list_all (\<lambda>ev. \<not> touchesFiles ev) (snd (getRepositoryContent e))"
  by (auto simp: getRepositoryContent_def readEntries_eq Println_def Let_def list_all_iff
           split: option.splits)

lemma updateFiles_no_files:
  assumes "snd (fst (getRepositoryContent e)) = []"
  shows "updateFiles e s =
           Some (s\<lparr>trace := trace s @ Println [''Repository:'', repoURL e] # snd (getRepositoryContent e)\<rparr>)"
  using assms by (cases "getRepositoryContent e") (auto simp: updateFiles_def Let_def)

lemma getRepositoryContent_files:
  assumes "httpGet e (repoURL e) = Some r" "StatusCode r = 200" "\<not> BodyError r"
  shows "snd (fst (getRepositoryContent e)) =
           map (\<lambda>entry. \<lparr>Name = entry ! 0, Hash = entry ! 1\<rparr>)
             (filter (\<lambda>entry. length entry = 2) (Files (Unmarshal (jsonParse e (Body r)) emptyRepository)))"
    and "snd (getRepositoryContent e) =
           EvGet (repoURL e) #
           map (\<lambda>entry. Println [''Files entry does not contain 2 items''])
             (filter (\<lambda>entry. length entry \<noteq> 2) (Files (Unmarshal (jsonParse e (Body r)) emptyRepository)))"
  using assms by (simp_all add: getRepositoryContent_def Let_def readEntries_eq emptyRepository_def)

lemma getRepositoryContent_failed:
  assumes "httpGet e (repoURL e) = None \<or> (\<exists>r. httpGet e (repoURL e) = Some r \<and> (StatusCode r \<noteq> 200 \<or> BodyError r))"
  shows "snd (fst (getRepositoryContent e)) = []"
  using assms by (auto simp: getRepositoryContent_def)


text \<open>
  Claim C8. When the manifest is fetched (status 200, body read), the list of files
  that \<^verbatim>\<open>getRepositoryContent\<close> returns holds every entry of \<^verbatim>\<open>Files\<close> with exactly
  two items, in the order of the manifest, whatever other entries stand between
  them; and what the call prints is one diagnostic line for each entry with another
  number of items.
\<close>

theorem malformed_entries_skipped:
  assumes "httpGet e (repoURL e) = Some r" and "StatusCode r = 200" and "\<not> BodyError r"
  shows "snd (fst (getRepositoryContent e)) =
           map (\<lambda>entry. \<lparr>Name = entry ! 0, Hash = entry ! 1\<rparr>)
             (filter (\<lambda>entry. length entry = 2)
                (Files (Unmarshal (jsonParse e (Body r)) emptyRepository)))
         \<and> filter (\<lambda>ev. ev \<noteq> EvGet (repoURL e)) (snd (getRepositoryContent e)) =
           map (\<lambda>entry. Println [''Files entry does not contain 2 items''])
             (filter (\<lambda>entry. length entry \<noteq> 2)
                (Files (Unmarshal (jsonParse e (Body r)) emptyRepository)))"
proof -
  have "filter (\<lambda>ev. ev \<noteq> EvGet (repoURL e)) (map (\<lambda>entry. Println [''Files entry does not contain 2 items'']) xs)
          = map (\<lambda>entry. Println [''Files entry does not contain 2 items'']) xs" for xs :: "string list list"
    by (induction xs) (auto simp: Println_def)
  then show ?thesis
    using getRepositoryContent_files [OF assms] by simp
qed

theorem malformed_entries_skipped_witness:
  "snd (fst (getRepositoryContent
      (exampleEnv (manifestDoc ''http://host/''
         [fileEntry ''mods/a.txt'' ''61'',
          JArray [JString ''mods/x.txt'', JString ''62'', JString ''extra''],
          fileEntry ''mods/b.txt'' ''63''])
        (\<lambda>url. None) (\<lambda>op k. False))))
   = [\<lparr>Name = ''mods/a.txt'', Hash = ''61''\<rparr>, \<lparr>Name = ''mods/b.txt'', Hash = ''63''\<rparr>]
   \<and> filter (\<lambda>ev. ev \<noteq> EvGet ''http://host/updater.json'')
        (snd (getRepositoryContent
          (exampleEnv (manifestDoc ''http://host/''
             [fileEntry ''mods/a.txt'' ''61'',
              JArray [JString ''mods/x.txt'', JString ''62'', JString ''extra''],
              fileEntry ''mods/b.txt'' ''63''])
            (\<lambda>url. None) (\<lambda>op k. False))))
   = [Println [''Files entry does not contain 2 items'']]"
  using malformed_entries_skipped
    [of "exampleEnv (manifestDoc ''http://host/''
         [fileEntry ''mods/a.txt'' ''61'',
          JArray [JString ''mods/x.txt'', JString ''62'', JString ''extra''],
          fileEntry ''mods/b.txt'' ''63''])
        (\<lambda>url. None) (\<lambda>op k. False)"
        "\<lparr>StatusCode = 200, Body = [], BodyError = False\<rparr>"]
  by (simp add: exampleEnv_def manifestDoc_def fileEntry_def emptyRepository_def
        unmarshalMember_def asciiLower_def)

text \<open>
  Claim C10. When the manifest is fetched and its \<^verbatim>\<open>Files\<close> holds no entry of exactly
  two items (the list is empty, or absent, or all its entries are malformed),
  \<^verbatim>\<open>updateFiles\<close> returns at line 109: the file system is as it was, and the only events
  of the run are what it prints and the one fetch of the manifest; no call to the file
  system is made.
\<close>

theorem empty_manifest_returns_early:
  assumes "httpGet e (repoURL e) = Some r"
    and "filter (\<lambda>entry. length entry = 2)
           (Files (Unmarshal (jsonParse e (Body r)) emptyRepository)) = []"
  shows "\<exists>added. updateFiles e s = Some (s\<lparr>trace := trace s @ added\<rparr>)
           \<and> list_all (\<lambda>ev. \<not> touchesFiles ev) added"
proof -
  have none: "snd (fst (getRepositoryContent e)) = []"
  proof (cases "StatusCode r = 200 \<and> \<not> BodyError r")
    case True
    then show ?thesis using getRepositoryContent_files(1) [OF assms(1)] assms(2) by simp
  next
    case False
    then show ?thesis using getRepositoryContent_failed [of e] assms(1) by auto
  qed
  show ?thesis
    using updateFiles_no_files [OF none, of s] getRepositoryContent_quiet [of e]
    by (auto simp: Println_def)
qed

theorem empty_manifest_returns_early_witness:
  "\<exists>added.
     updateFiles (exampleEnv (manifestDoc ''http://host/'' []) (\<lambda>url. None) (\<lambda>op k. False))
       \<lparr>fs = [([''home''], Directory), ([''home'', ''u''], Directory),
              ([''home'', ''u'', ''mods''], Directory),
              ([''home'', ''u'', ''mods'', ''a.txt''], File [0x61])], trace = []\<rparr>
     = Some \<lparr>fs = [([''home''], Directory), ([''home'', ''u''], Directory),
              ([''home'', ''u'', ''mods''], Directory),
              ([''home'', ''u'', ''mods'', ''a.txt''], File [0x61])], trace = added\<rparr>
     \<and> list_all (\<lambda>ev. \<not> touchesFiles ev) added"
  using empty_manifest_returns_early
    [of "exampleEnv (manifestDoc ''http://host/'' []) (\<lambda>url. None) (\<lambda>op k. False)"
        "\<lparr>StatusCode = 200, Body = [], BodyError = False\<rparr>"
        "\<lparr>fs = [([''home''], Directory), ([''home'', ''u''], Directory),
              ([''home'', ''u'', ''mods''], Directory),
              ([''home'', ''u'', ''mods'', ''a.txt''], File [0x61])], trace = []\<rparr>"]
  by (simp add: exampleEnv_def manifestDoc_def emptyRepository_def unmarshalMember_def asciiLower_def)



section \<open>The download loop: results\<close>









lemma example_resolve:
  "resolve (Some ''/home/u'') ''mods'' = Some [''home'', ''u'', ''mods'']"
  "resolve (Some ''/home/u'') ''mods/a.txt'' = Some [''home'', ''u'', ''mods'', ''a.txt'']"
  "resolve (Some ''/home/u'') ''mods/b.txt'' = Some [''home'', ''u'', ''mods'', ''b.txt'']"
  "resolve (Some ''/home/u'') ''mods/c.txt'' = Some [''home'', ''u'', ''mods'', ''c.txt'']"
  "resolve (Some ''/home/u'') ''mods/d.txt'' = Some [''home'', ''u'', ''mods'', ''d.txt'']"
  by (simp_all add: resolve_def Abs_def IsAbs_def Join_def Clean_def cleanElems_def)

lemma example_Dir:
  "Dir ''mods/a.txt'' = ''mods''" "Dir ''mods/b.txt'' = ''mods''"
  "Dir ''mods/c.txt'' = ''mods''" "Dir ''mods/d.txt'' = ''mods''"
  by (simp_all add: Dir_def IsAbs_def Clean_def cleanElems_def)

lemma example_hash:
  "calculateHash (take (Suc 0)) (FileHandle [b]) = Some [hexDigit (unat b div 16), hexDigit (unat b mod 16)]"
  by (simp add: calculateHash_def hashLoop_short EncodeToString_def)

lemma exampleEnv_fields:
  "repoURL (exampleEnv doc server locked) = ''http://host/updater.json''"
  "Getwd (exampleEnv doc server locked) = Some ''/home/u''"
  "httpGet (exampleEnv doc server locked) url =
     (if url = ''http://host/updater.json''
      then Some \<lparr>StatusCode = 200, Body = [], BodyError = False\<rparr> else server url)"
  "refused (exampleEnv doc server locked) = locked"
  "sha1 (exampleEnv doc server locked) = take 1"
  "jsonParse (exampleEnv doc server locked) bytes = doc"
  by (simp_all add: exampleEnv_def)


section \<open>The three loops of the reconciler: results\<close>

lemma HasValidPath_printed: "snd (HasValidPath getwd rf) = [] \<or> (\<exists>text. snd (HasValidPath getwd rf) = [Print text])"
  by (auto simp: HasValidPath_def Println_def Let_def split: option.splits)

lemma checkEntry_trace:
  assumes "checkEntry e files rf (dl, dirs, out) = Some (dl', dirs', out')"
  shows "\<exists>added. out' = out @ added \<and> list_all checkEvent added
           \<and> filter isOpen added = (if fst (HasValidPath (Getwd e) rf) then [EvOpen (Name rf)] else [])"
proof -
  obtain valid printed where hv: "HasValidPath (Getwd e) rf = (valid, printed)"
    by (cases "HasValidPath (Getwd e) rf")
  have p: "printed = [] \<or> (\<exists>text. printed = [Print text])"
    using HasValidPath_printed [of "Getwd e" rf] hv by simp
  show ?thesis
    using assms p
    by (auto simp: checkEntry_def hv Let_def Println_def
             split: if_splits openResult.splits option.splits bool.splits)
qed

lemma checkExisting_trace:
  assumes "checkExisting e files list (dl, dirs, out) = Some (dl', dirs', out')"
  shows "\<exists>added. out' = out @ added \<and> list_all checkEvent added
           \<and> filter isOpen added
               = map (\<lambda>rf. EvOpen (Name rf)) (filter (\<lambda>rf. fst (HasValidPath (Getwd e) rf)) list)"
  using assms
proof (induction list arbitrary: dl dirs out)
  case Nil
  then show ?case by simp
next
  case (Cons rf rest)
  from Cons.prems obtain dl1 dirs1 out1 where
    one: "checkEntry e files rf (dl, dirs, out) = Some (dl1, dirs1, out1)"
    and more: "checkExisting e files rest (dl1, dirs1, out1) = Some (dl', dirs', out')"
    by (auto split: option.splits)
  from checkEntry_trace [OF one] obtain a1 where
    a1: "out1 = out @ a1" "list_all checkEvent a1"
        "filter isOpen a1 = (if fst (HasValidPath (Getwd e) rf) then [EvOpen (Name rf)] else [])"
    by blast
  from Cons.IH [OF more] obtain a2 where
    a2: "out' = out1 @ a2" "list_all checkEvent a2"
        "filter isOpen a2 = map (\<lambda>rf. EvOpen (Name rf)) (filter (\<lambda>rf. fst (HasValidPath (Getwd e) rf)) rest)"
    by blast
  have "out' = out @ (a1 @ a2)" using a1 a2 by simp
  moreover have "list_all checkEvent (a1 @ a2)" using a1 a2 by simp
  moreover have "filter isOpen (a1 @ a2)
      = map (\<lambda>rf. EvOpen (Name rf)) (filter (\<lambda>rf. fst (HasValidPath (Getwd e) rf)) (rf # rest))"
    using a1 a2 by simp
  ultimately show ?case by blast
qed

lemma belongsToRepo_iff: "belongsToRepo list path \<longleftrightarrow> path \<in> Name ` set list"
proof -
  have "foldl (\<lambda>belongs rf. if path = Name rf then True else belongs) b list
          \<longleftrightarrow> b \<or> path \<in> Name ` set list" for b
    by (induction list arbitrary: b) auto
  then show ?thesis by (simp add: belongsToRepo_def)
qed

lemma pruneVisit_trace:
  assumes "pruneVisit e list visit s = (s', goOn)"
  shows "\<exists>added. trace s' = trace s @ added \<and> list_all pruneEvent added
           \<and> (\<forall>path. EvRemoveAll path \<in> set added \<longrightarrow> \<not> belongsToRepo list path)"
  using assms
  by (cases visit)
     (auto simp: pruneVisit_def Let_def Println_def ToSlash_def split: if_splits option.splits)

lemma pruneWalk_trace:
  "\<exists>added. trace (pruneWalk e list visits s) = trace s @ added \<and> list_all pruneEvent added
           \<and> (\<forall>path. EvRemoveAll path \<in> set added \<longrightarrow> \<not> belongsToRepo list path)"
proof (induction visits arbitrary: s)
  case Nil
  then show ?case by simp
next
  case (Cons visit visits)
  obtain s1 goOn where v: "pruneVisit e list visit s = (s1, goOn)"
    by (cases "pruneVisit e list visit s")
  from pruneVisit_trace [OF v] obtain a1 where
    a1: "trace s1 = trace s @ a1" "list_all pruneEvent a1"
        "\<forall>path. EvRemoveAll path \<in> set a1 \<longrightarrow> \<not> belongsToRepo list path" by blast
  show ?case
  proof (cases goOn)
    case True
    from Cons.IH [of s1] obtain a2 where
      a2: "trace (pruneWalk e list visits s1) = trace s1 @ a2" "list_all pruneEvent a2"
          "\<forall>path. EvRemoveAll path \<in> set a2 \<longrightarrow> \<not> belongsToRepo list path" by blast
    have "trace (pruneWalk e list (visit # visits) s) = trace s @ (a1 @ a2)"
      using v True a1 a2 by simp
    moreover have "list_all pruneEvent (a1 @ a2)" using a1 a2 by simp
    moreover have "\<forall>path. EvRemoveAll path \<in> set (a1 @ a2) \<longrightarrow> \<not> belongsToRepo list path"
      using a1 a2 by auto
    ultimately show ?thesis by blast
  next
    case False
    then have "trace (pruneWalk e list (visit # visits) s) = trace s @ a1" using v a1 by simp
    with a1 show ?thesis by blast
  qed
qed

lemma pruneDir_trace:
  assumes "pruneDir e list dir s = Some s'"
  shows "\<exists>added. trace s' = trace s @ added \<and> list_all pruneEvent added
           \<and> (\<forall>path. EvRemoveAll path \<in> set added \<longrightarrow> \<not> belongsToRepo list path)"
proof (cases "osStat e (fs s) dir")
  case False
  with assms have "trace s' = trace s @ [EvStat dir]" by (auto simp: pruneDir_def)
  then show ?thesis by force
next
  case True
  with assms obtain visits where
    s': "s' = pruneWalk e list visits (s\<lparr>trace := trace s @ [EvStat dir, EvWalk dir]\<rparr>)"
    by (auto simp: pruneDir_def split: option.splits)
  from pruneWalk_trace [of e list visits "s\<lparr>trace := trace s @ [EvStat dir, EvWalk dir]\<rparr>"]
  obtain a where a: "trace s' = (trace s @ [EvStat dir, EvWalk dir]) @ a" "list_all pruneEvent a"
      "\<forall>path. EvRemoveAll path \<in> set a \<longrightarrow> \<not> belongsToRepo list path"
    unfolding s' by auto
  have "trace s' = trace s @ ([EvStat dir, EvWalk dir] @ a)" using a by simp
  moreover have "list_all pruneEvent ([EvStat dir, EvWalk dir] @ a)" using a by simp
  moreover have "\<forall>path. EvRemoveAll path \<in> set ([EvStat dir, EvWalk dir] @ a) \<longrightarrow> \<not> belongsToRepo list path"
    using a by auto
  ultimately show ?thesis by blast
qed

lemma pruneDirs_trace:
  assumes "pruneDirs e list dirs s = Some s'"
  shows "\<exists>added. trace s' = trace s @ added \<and> list_all pruneEvent added
           \<and> (\<forall>path. EvRemoveAll path \<in> set added \<longrightarrow> \<not> belongsToRepo list path)"
  using assms
proof (induction dirs arbitrary: s)
  case Nil
  then show ?case by simp
next
  case (Cons dir dirs)
  from Cons.prems obtain s1 where
    one: "pruneDir e list dir s = Some s1" and more: "pruneDirs e list dirs s1 = Some s'"
    by (auto split: option.splits)
  from pruneDir_trace [OF one] obtain a1 where
    a1: "trace s1 = trace s @ a1" "list_all pruneEvent a1"
        "\<forall>path. EvRemoveAll path \<in> set a1 \<longrightarrow> \<not> belongsToRepo list path" by blast
  from Cons.IH [OF more] obtain a2 where
    a2: "trace s' = trace s1 @ a2" "list_all pruneEvent a2"
        "\<forall>path. EvRemoveAll path \<in> set a2 \<longrightarrow> \<not> belongsToRepo list path" by blast
  have "trace s' = trace s @ (a1 @ a2)" using a1 a2 by simp
  moreover have "list_all pruneEvent (a1 @ a2)" using a1 a2 by simp
  moreover have "\<forall>path. EvRemoveAll path \<in> set (a1 @ a2) \<longrightarrow> \<not> belongsToRepo list path"
    using a1 a2 by auto
  ultimately show ?case by blast
qed

lemma download_events:
  assumes "download e downloadRoot rf (n, s) = Some (n', s')"
  shows "\<exists>added. trace s' = trace s @ added \<and> list_all downloadEvent added"
  using assms
  by (auto simp: download_def Let_def Println_def split: option.splits bool.splits if_splits)

lemma downloadAll_events:
  assumes "downloadAll e downloadRoot dls (n, s) = Some (n', s')"
  shows "\<exists>added. trace s' = trace s @ added \<and> list_all downloadEvent added"
  using assms
proof (induction dls arbitrary: n s)
  case Nil
  then show ?case by simp
next
  case (Cons rf rest)
  from Cons.prems obtain n1 s1 where
    one: "download e downloadRoot rf (n, s) = Some (n1, s1)"
    and more: "downloadAll e downloadRoot rest (n1, s1) = Some (n', s')"
    by (auto split: option.splits)
  from download_events [OF one] obtain a1 where
    a1: "trace s1 = trace s @ a1" "list_all downloadEvent a1" by blast
  from Cons.IH [OF more] obtain a2 where
    a2: "trace s' = trace s1 @ a2" "list_all downloadEvent a2" by blast
  have "trace s' = trace s @ (a1 @ a2)" using a1 a2 by simp
  moreover have "list_all downloadEvent (a1 @ a2)" using a1 a2 by simp
  ultimately show ?case by blast
qed

lemma updateFiles_phases:
  assumes "updateFiles e s = Some s'"
  shows "\<exists>fetched checked pruned downloaded.
           trace s' = trace s @ fetched @ checked @ pruned @ downloaded
           \<and> list_all (\<lambda>ev. \<not> touchesFiles ev) fetched
           \<and> list_all checkEvent checked
           \<and> (snd (fst (getRepositoryContent e)) \<noteq> [] \<longrightarrow>
                filter isOpen checked
                  = map (\<lambda>rf. EvOpen (Name rf))
                      (filter (\<lambda>rf. fst (HasValidPath (Getwd e) rf)) (snd (fst (getRepositoryContent e)))))
           \<and> list_all pruneEvent pruned
           \<and> (\<forall>path. EvRemoveAll path \<in> set pruned \<longrightarrow>
                 \<not> belongsToRepo (snd (fst (getRepositoryContent e))) path)
           \<and> list_all downloadEvent downloaded"
proof -
  obtain root list fetched where g: "getRepositoryContent e = ((root, list), fetched)"
    by (cases "getRepositoryContent e") auto
  have q: "list_all (\<lambda>ev. \<not> touchesFiles ev) (Println [''Repository:'', repoURL e] # fetched)"
    using getRepositoryContent_quiet [of e] g by (simp add: Println_def)
  show ?thesis
  proof (cases "list = []")
    case True
    with assms g have "trace s' = trace s @ (Println [''Repository:'', repoURL e] # fetched) @ [] @ [] @ []"
      by (auto simp: updateFiles_def Let_def)
    with q g True show ?thesis
      by (intro exI [of _ "Println [''Repository:'', repoURL e] # fetched"] exI [of _ "[]"]) simp
  next
    case False
    define s0 where "s0 = s\<lparr>trace := trace s @ [Println [''Repository:'', repoURL e]] @ fetched\<rparr>"
    from assms g False obtain dl dirs checked s1 n s2 where
      c: "checkExisting e (fs s0) list ([], [], [Println [[]]]) = Some (dl, dirs, checked)"
      and p: "pruneDirs e list dirs
                (s0\<lparr>trace := trace s0 @ checked @ [Println [[]], Println [''Pruning non-repository files'']]\<rparr>)
              = Some s1"
      and d: "downloadAll e root dl (0, s1\<lparr>trace := trace s1 @ [Println [[]]]\<rparr>) = Some (n, s2)"
      and s': "s' = s2\<lparr>trace := trace s2 @
                 [Println [[]],
                  if n > 0 then Print (''Completed with '' @ showNat n @ '' errors'' @ [CHR 0x0A])
                  else Println [''Done :-)''],
                  Println [[]], Println [''Press Enter to close'']]\<rparr>"
      by (auto simp: updateFiles_def Let_def s0_def split: option.splits)
    from checkExisting_trace [OF c] obtain ca where
      ca: "checked = [Println [[]]] @ ca" "list_all checkEvent ca"
          "filter isOpen ca = map (\<lambda>rf. EvOpen (Name rf)) (filter (\<lambda>rf. fst (HasValidPath (Getwd e) rf)) list)"
      by blast
    from pruneDirs_trace [OF p] obtain pa where
      pa: "trace s1 = (trace s0 @ checked @ [Println [[]], Println [''Pruning non-repository files'']]) @ pa"
          "list_all pruneEvent pa"
          "\<forall>path. EvRemoveAll path \<in> set pa \<longrightarrow> \<not> belongsToRepo list path"
      by auto
    from downloadAll_events [OF d] obtain da where
      da: "trace s2 = (trace s1 @ [Println [[]]]) @ da" "list_all downloadEvent da"
      by auto
    define C where "C = checked"
    define P where "P = [Println [[]], Println [''Pruning non-repository files'']] @ pa"
    define D where "D = [Println [[]]] @ da @
                 [Println [[]],
                  if n > 0 then Print (''Completed with '' @ showNat n @ '' errors'' @ [CHR 0x0A])
                  else Println [''Done :-)''],
                  Println [[]], Println [''Press Enter to close'']]"
    have t: "trace s' = trace s @ (Println [''Repository:'', repoURL e] # fetched) @ C @ P @ D"
      using s' da pa by (simp add: s0_def C_def P_def D_def)
    have cC: "list_all checkEvent C" using ca by (simp add: C_def Println_def)
    have oC: "filter isOpen C = map (\<lambda>rf. EvOpen (Name rf)) (filter (\<lambda>rf. fst (HasValidPath (Getwd e) rf)) list)"
      using ca by (simp add: C_def Println_def)
    have pP: "list_all pruneEvent P" using pa by (simp add: P_def Println_def)
    have rP: "\<forall>path. EvRemoveAll path \<in> set P \<longrightarrow> \<not> belongsToRepo list path"
      using pa by (auto simp: P_def Println_def)
    have dD: "list_all downloadEvent D" using da by (simp add: D_def Println_def)
    from t q cC oC pP rP dD g show ?thesis
      by (intro exI [of _ "Println [''Repository:'', repoURL e] # fetched"] exI [of _ C]
                exI [of _ P] exI [of _ D]) simp
  qed
qed

section \<open>A run of the reconciler in the example environment\<close>

lemma example_manifest:
  "getRepositoryContent (exampleEnv exampleManifest server locked)
     = ((''http://host/'',
         [\<lparr>Name = ''mods/a.txt'', Hash = ''61''\<rparr>, \<lparr>Name = ''mods/b.txt'', Hash = ''62''\<rparr>,
          \<lparr>Name = ''mods/d.txt'', Hash = ''64''\<rparr>]),
        [EvGet ''http://host/updater.json''])"
  by (simp add: getRepositoryContent_def exampleEnv_fields exampleManifest_def manifestDoc_def
        fileEntry_def unmarshalMember_def asciiLower_def Let_def)

lemma example_valid:
  "HasValidPath (Some ''/home/u'') \<lparr>Name = ''mods/a.txt'', Hash = h\<rparr> = (True, [])"
  "HasValidPath (Some ''/home/u'') \<lparr>Name = ''mods/b.txt'', Hash = h\<rparr> = (True, [])"
  "HasValidPath (Some ''/home/u'') \<lparr>Name = ''mods/d.txt'', Hash = h\<rparr> = (True, [])"
  by (simp_all add: HasValidPath_def Abs_def IsAbs_def Join_def Clean_def cleanElems_def)

lemma example_resolve_orphan:
  "resolve (Some ''/home/u'') ''mods/orphan.txt'' = Some [''home'', ''u'', ''mods'', ''orphan.txt'']"
  by (simp add: resolve_def Abs_def IsAbs_def Join_def Clean_def cleanElems_def)

lemma example_check:
  "checkExisting (exampleEnv doc server locked) exampleTree
     [\<lparr>Name = ''mods/a.txt'', Hash = ''61''\<rparr>, \<lparr>Name = ''mods/b.txt'', Hash = ''62''\<rparr>,
      \<lparr>Name = ''mods/d.txt'', Hash = ''64''\<rparr>] ([], [], [Println [[]]])
   = (if locked Reading [''home'', ''u'', ''mods'', ''a.txt'']
      then Some ([\<lparr>Name = ''mods/b.txt'', Hash = ''62''\<rparr>, \<lparr>Name = ''mods/d.txt'', Hash = ''64''\<rparr>],
            [''mods''],
            [Println [[]], Print ''mods/a.txt : '', EvOpen ''mods/a.txt'', Println [''Skip:'', ''open error''],
             Print ''mods/b.txt : '', EvOpen ''mods/b.txt'', Println [''Download''],
             Print ''mods/d.txt : '', EvOpen ''mods/d.txt'', Println [''Download'']])
      else Some ([\<lparr>Name = ''mods/b.txt'', Hash = ''62''\<rparr>, \<lparr>Name = ''mods/d.txt'', Hash = ''64''\<rparr>],
            [''mods''],
            [Println [[]], Print ''mods/a.txt : '', EvOpen ''mods/a.txt'', Println [''OK''],
             Print ''mods/b.txt : '', EvOpen ''mods/b.txt'', Println [''Download''],
             Print ''mods/d.txt : '', EvOpen ''mods/d.txt'', Println [''Download'']]))"
  by (simp add: checkEntry_def exampleEnv_fields example_valid example_resolve osOpen_def
        lookupNode_def exampleTree_def exampleFiles_def CheckHash_def example_hash hexDigit_def Let_def)

lemma example_walk:
  "filepathWalk (exampleEnv doc server locked) exampleTree ''mods''
     = Some [(''mods'', True), (''mods/a.txt'', False), (''mods/orphan.txt'', False)]"
  by (simp add: filepathWalk_def exampleEnv_fields example_resolve lookupNode_def exampleTree_def
        exampleFiles_def walkPath_def Join_def Clean_def IsAbs_def cleanElems_def)

lemma example_prune:
  "pruneDirs (exampleEnv doc server (\<lambda>op k. False))
     [\<lparr>Name = ''mods/a.txt'', Hash = ''61''\<rparr>, \<lparr>Name = ''mods/b.txt'', Hash = ''62''\<rparr>,
      \<lparr>Name = ''mods/d.txt'', Hash = ''64''\<rparr>] [''mods''] \<lparr>fs = exampleTree, trace = t\<rparr>
   = Some \<lparr>fs = exampleFiles,
           trace = t @ [EvStat ''mods'', EvWalk ''mods'', Println [''Removing'', ''mods/orphan.txt''],
                        EvRemoveAll ''mods/orphan.txt'']\<rparr>"
  by (simp add: pruneDir_def example_walk osStat_def exampleEnv_fields example_resolve
        example_resolve_orphan lookupNode_def pruneVisit_def belongsToRepo_def ToSlash_def
        osRemoveAll_def Let_def)
     (simp add: exampleTree_def exampleFiles_def)

lemma example_download:
  "downloadAll (exampleEnv doc exampleServer (\<lambda>op k. False)) ''http://host/''
     [\<lparr>Name = ''mods/b.txt'', Hash = ''62''\<rparr>, \<lparr>Name = ''mods/d.txt'', Hash = ''64''\<rparr>]
     (0, \<lparr>fs = exampleFiles, trace = t\<rparr>)
   = Some (1, \<lparr>fs = exampleFiles @ [([''home'', ''u'', ''mods'', ''b.txt''], File [0x62])],
               trace = t @ [Print ''Downloading mods/b.txt ... '', EvMkdirAll ''mods'',
                            EvGet ''http://host/mods/b.txt'', EvOpenFile ''mods/b.txt'',
                            EvWrite ''mods/b.txt'' [0x62], Println [''OK''],
                            Print ''Downloading mods/d.txt ... '', EvMkdirAll ''mods'',
                            EvGet ''http://host/mods/d.txt'', Println [''HTTP'', ''404'']]\<rparr>)"
  by (simp add: download_def example_Dir example_resolve exampleEnv_fields osMkdirAll_def
        osOpenFile_def lookupNode_def writeFile_def exampleServer_def exampleFiles_def
        CheckHash_def example_hash hexDigit_def showNat.simps Let_def)

lemma example_run:
  "updateFiles (exampleEnv exampleManifest exampleServer (\<lambda>op k. False)) \<lparr>fs = exampleTree, trace = []\<rparr>
   = Some \<lparr>fs = exampleFiles @ [([''home'', ''u'', ''mods'', ''b.txt''], File [0x62])],
           trace =
             [Println [''Repository:'', ''http://host/updater.json''], EvGet ''http://host/updater.json'',
              Println [[]],
              Print ''mods/a.txt : '', EvOpen ''mods/a.txt'', Println [''OK''],
              Print ''mods/b.txt : '', EvOpen ''mods/b.txt'', Println [''Download''],
              Print ''mods/d.txt : '', EvOpen ''mods/d.txt'', Println [''Download''],
              Println [[]], Println [''Pruning non-repository files''],
              EvStat ''mods'', EvWalk ''mods'', Println [''Removing'', ''mods/orphan.txt''],
              EvRemoveAll ''mods/orphan.txt'',
              Println [[]],
              Print ''Downloading mods/b.txt ... '', EvMkdirAll ''mods'',
              EvGet ''http://host/mods/b.txt'', EvOpenFile ''mods/b.txt'',
              EvWrite ''mods/b.txt'' [0x62], Println [''OK''],
              Print ''Downloading mods/d.txt ... '', EvMkdirAll ''mods'',
              EvGet ''http://host/mods/d.txt'', Println [''HTTP'', ''404''],
              Println [[]], Print ''Completed with 1 errors\<newline>'', Println [[]],
              Println [''Press Enter to close'']]\<rparr>"
  by (simp add: updateFiles_def example_manifest example_check example_prune example_download
        exampleEnv_fields showNat.simps del: checkExisting.simps pruneDirs.simps downloadAll.simps)

text \<open>
  Claim C4. The events of a run that returns are those of four stretches in this
  order: the fetch of the manifest, the first loop, the pruning loop, the download loop.
  The first loop only prints and opens files, and it opens every entry with a valid
  path, in the order of the manifest; the pruning loop only prints and calls
  \<^verbatim>\<open>os.Stat\<close>, \<^verbatim>\<open>filepath.Walk\<close> and \<^verbatim>\<open>os.RemoveAll\<close>, and every path it removes is
  the path of no entry of the whole manifest; the download loop only prints, makes
  directories, fetches and writes files. So every file is checked before the first one
  is removed, and nothing is created or written before the last one is removed.
\<close>

theorem phases_in_order:
  assumes "updateFiles e s = Some s'"
  shows "\<exists>fetched checked pruned downloaded.
           trace s' = trace s @ fetched @ checked @ pruned @ downloaded
           \<and> list_all (\<lambda>ev. \<not> touchesFiles ev) fetched
           \<and> list_all checkEvent checked
           \<and> (snd (fst (getRepositoryContent e)) \<noteq> [] \<longrightarrow>
                filter isOpen checked
                  = map (\<lambda>rf. EvOpen (Name rf))
                      (filter (\<lambda>rf. fst (HasValidPath (Getwd e) rf)) (snd (fst (getRepositoryContent e)))))
           \<and> list_all pruneEvent pruned
           \<and> (\<forall>path. EvRemoveAll path \<in> set pruned \<longrightarrow>
                 \<not> belongsToRepo (snd (fst (getRepositoryContent e))) path)
           \<and> list_all downloadEvent downloaded"
  using assms by (rule updateFiles_phases)

theorem phases_in_order_witness:
  "\<exists>fetched checked pruned downloaded.
     [Println [''Repository:'', ''http://host/updater.json''], EvGet ''http://host/updater.json'',
      Println [[]],
      Print ''mods/a.txt : '', EvOpen ''mods/a.txt'', Println [''OK''],
      Print ''mods/b.txt : '', EvOpen ''mods/b.txt'', Println [''Download''],
      Print ''mods/d.txt : '', EvOpen ''mods/d.txt'', Println [''Download''],
      Println [[]], Println [''Pruning non-repository files''],
      EvStat ''mods'', EvWalk ''mods'', Println [''Removing'', ''mods/orphan.txt''],
      EvRemoveAll ''mods/orphan.txt'',
      Println [[]],
      Print ''Downloading mods/b.txt ... '', EvMkdirAll ''mods'',
      EvGet ''http://host/mods/b.txt'', EvOpenFile ''mods/b.txt'',
      EvWrite ''mods/b.txt'' [0x62], Println [''OK''],
      Print ''Downloading mods/d.txt ... '', EvMkdirAll ''mods'',
      EvGet ''http://host/mods/d.txt'', Println [''HTTP'', ''404''],
      Println [[]], Print ''Completed with 1 errors\<newline>'', Println [[]],
      Println [''Press Enter to close'']]
       = fetched @ checked @ pruned @ downloaded
     \<and> list_all (\<lambda>ev. \<not> touchesFiles ev) fetched
     \<and> list_all checkEvent checked
     \<and> filter isOpen checked = [EvOpen ''mods/a.txt'', EvOpen ''mods/b.txt'', EvOpen ''mods/d.txt'']
     \<and> list_all pruneEvent pruned
     \<and> list_all downloadEvent downloaded"
  using phases_in_order [OF example_run]
  by (simp add: example_manifest exampleEnv_fields example_valid) blast

section \<open>Entries with an invalid path\<close>

lemma HasValidPath_Name: "Name rf = Name rf' \<Longrightarrow> HasValidPath getwd rf = HasValidPath getwd rf'"
  by (simp add: HasValidPath_def split: option.splits)

lemma stringInSlice_iff: "stringInSlice a list \<longleftrightarrow> a \<in> set list"
  by (induction list) auto

lemma checkEntry_result:
  assumes "checkEntry e files rf (dl, dirs, out) = Some (dl', dirs', out')"
  shows "set dl' \<subseteq> set dl \<union> (if fst (HasValidPath (Getwd e) rf) then {rf} else {})"
    and "set dirs' = set dirs \<union> (if fst (HasValidPath (Getwd e) rf) then {Split CHR ''/'' (Name rf) ! 0} else {})"
proof -
  obtain valid printed where hv: "HasValidPath (Getwd e) rf = (valid, printed)"
    by (cases "HasValidPath (Getwd e) rf")
  show "set dl' \<subseteq> set dl \<union> (if fst (HasValidPath (Getwd e) rf) then {rf} else {})"
    using assms
    by (auto simp: checkEntry_def hv Let_def split: if_splits openResult.splits option.splits bool.splits)
  show "set dirs' = set dirs \<union> (if fst (HasValidPath (Getwd e) rf) then {Split CHR ''/'' (Name rf) ! 0} else {})"
    using assms
    by (auto simp: checkEntry_def hv Let_def stringInSlice_iff
             split: if_splits openResult.splits option.splits bool.splits)
qed

lemma checkExisting_result:
  assumes "checkExisting e files list (dl, dirs, out) = Some (dl', dirs', out')"
  shows "set dl' \<subseteq> set dl \<union> {rf \<in> set list. fst (HasValidPath (Getwd e) rf)}"
    and "set dirs' = set dirs \<union> (\<lambda>rf. Split CHR ''/'' (Name rf) ! 0) ` {rf \<in> set list. fst (HasValidPath (Getwd e) rf)}"
  using assms
proof (induction list arbitrary: dl dirs out)
  case Nil
  { case 1 then show ?case by simp }
  { case 2 then show ?case by simp }
next
  case (Cons rf rest)
  { case 1
    then obtain dl1 dirs1 out1 where
      one: "checkEntry e files rf (dl, dirs, out) = Some (dl1, dirs1, out1)"
      and more: "checkExisting e files rest (dl1, dirs1, out1) = Some (dl', dirs', out')"
      by (auto split: option.splits)
    from checkEntry_result(1) [OF one] Cons.IH(1) [OF more] show ?case by (auto split: if_splits) }
  { case 2
    then obtain dl1 dirs1 out1 where
      one: "checkEntry e files rf (dl, dirs, out) = Some (dl1, dirs1, out1)"
      and more: "checkExisting e files rest (dl1, dirs1, out1) = Some (dl', dirs', out')"
      by (auto split: option.splits)
    from checkEntry_result(2) [OF one] Cons.IH(2) [OF more] show ?case by (auto split: if_splits) }
qed

lemma pruneVisit_scans:
  assumes "pruneVisit e list visit s = (s', goOn)"
  shows "\<exists>added. trace s' = trace s @ added \<and> (\<forall>d. EvStat d \<notin> set added \<and> EvWalk d \<notin> set added)"
  using assms
  by (cases visit)
     (auto simp: pruneVisit_def Let_def Println_def split: if_splits option.splits)

lemma pruneWalk_scans:
  "\<exists>added. trace (pruneWalk e list visits s) = trace s @ added
      \<and> (\<forall>d. EvStat d \<notin> set added \<and> EvWalk d \<notin> set added)"
proof (induction visits arbitrary: s)
  case Nil
  then show ?case by simp
next
  case (Cons visit visits)
  obtain s1 goOn where v: "pruneVisit e list visit s = (s1, goOn)"
    by (cases "pruneVisit e list visit s")
  from pruneVisit_scans [OF v] obtain a1 where
    a1: "trace s1 = trace s @ a1" "\<forall>d. EvStat d \<notin> set a1 \<and> EvWalk d \<notin> set a1" by blast
  from Cons.IH [of s1] obtain a2 where
    a2: "trace (pruneWalk e list visits s1) = trace s1 @ a2"
        "\<forall>d. EvStat d \<notin> set a2 \<and> EvWalk d \<notin> set a2" by blast
  show ?case
  proof (cases goOn)
    case True
    then have "trace (pruneWalk e list (visit # visits) s) = trace s @ (a1 @ a2)"
      using v a1 a2 by simp
    moreover have "\<forall>d. EvStat d \<notin> set (a1 @ a2) \<and> EvWalk d \<notin> set (a1 @ a2)" using a1 a2 by simp
    ultimately show ?thesis by blast
  next
    case False
    then have "trace (pruneWalk e list (visit # visits) s) = trace s @ a1" using v a1 by simp
    with a1 show ?thesis by blast
  qed
qed

lemma pruneDir_scans:
  assumes "pruneDir e list dir s = Some s'"
  shows "\<exists>added. trace s' = trace s @ added
           \<and> (\<forall>d. EvStat d \<in> set added \<or> EvWalk d \<in> set added \<longrightarrow> d = dir)"
proof (cases "osStat e (fs s) dir")
  case False
  with assms have "trace s' = trace s @ [EvStat dir]" by (auto simp: pruneDir_def)
  then show ?thesis by force
next
  case True
  with assms obtain visits where
    s': "s' = pruneWalk e list visits (s\<lparr>trace := trace s @ [EvStat dir, EvWalk dir]\<rparr>)"
    by (auto simp: pruneDir_def split: option.splits)
  from pruneWalk_scans [of e list visits "s\<lparr>trace := trace s @ [EvStat dir, EvWalk dir]\<rparr>"]
  obtain a where a: "trace s' = (trace s @ [EvStat dir, EvWalk dir]) @ a"
      "\<forall>d. EvStat d \<notin> set a \<and> EvWalk d \<notin> set a"
    unfolding s' by auto
  have "trace s' = trace s @ ([EvStat dir, EvWalk dir] @ a)" using a by simp
  moreover have "\<forall>d. EvStat d \<in> set ([EvStat dir, EvWalk dir] @ a) \<or> EvWalk d \<in> set ([EvStat dir, EvWalk dir] @ a) \<longrightarrow> d = dir"
    using a by auto
  ultimately show ?thesis by blast
qed

lemma pruneDirs_scans:
  assumes "pruneDirs e list dirs s = Some s'"
  shows "\<exists>added. trace s' = trace s @ added
           \<and> (\<forall>d. EvStat d \<in> set added \<or> EvWalk d \<in> set added \<longrightarrow> d \<in> set dirs)"
  using assms
proof (induction dirs arbitrary: s)
  case Nil
  then show ?case by simp
next
  case (Cons dir dirs)
  from Cons.prems obtain s1 where
    one: "pruneDir e list dir s = Some s1" and more: "pruneDirs e list dirs s1 = Some s'"
    by (auto split: option.splits)
  from pruneDir_scans [OF one] obtain a1 where
    a1: "trace s1 = trace s @ a1" "\<forall>d. EvStat d \<in> set a1 \<or> EvWalk d \<in> set a1 \<longrightarrow> d = dir" by blast
  from Cons.IH [OF more] obtain a2 where
    a2: "trace s' = trace s1 @ a2" "\<forall>d. EvStat d \<in> set a2 \<or> EvWalk d \<in> set a2 \<longrightarrow> d \<in> set dirs" by blast
  have "trace s' = trace s @ (a1 @ a2)" using a1 a2 by simp
  moreover have "\<forall>d. EvStat d \<in> set (a1 @ a2) \<or> EvWalk d \<in> set (a1 @ a2) \<longrightarrow> d \<in> set (dir # dirs)"
    using a1 a2 by auto
  ultimately show ?case by blast
qed

lemma download_names:
  assumes "download e downloadRoot rf (n, s) = Some (n', s')"
  shows "\<exists>added. trace s' = trace s @ added
           \<and> (\<forall>name bytes. EvOpenFile name \<in> set added \<or> EvWrite name bytes \<in> set added \<longrightarrow> name = Name rf)"
  using assms
  by (auto simp: download_def Let_def Println_def split: option.splits bool.splits if_splits)

lemma downloadAll_names:
  assumes "downloadAll e downloadRoot dls (n, s) = Some (n', s')"
  shows "\<exists>added. trace s' = trace s @ added
           \<and> (\<forall>name bytes. EvOpenFile name \<in> set added \<or> EvWrite name bytes \<in> set added
                  \<longrightarrow> name \<in> Name ` set dls)"
  using assms
proof (induction dls arbitrary: n s)
  case Nil
  then show ?case by simp
next
  case (Cons rf rest)
  from Cons.prems obtain n1 s1 where
    one: "download e downloadRoot rf (n, s) = Some (n1, s1)"
    and more: "downloadAll e downloadRoot rest (n1, s1) = Some (n', s')"
    by (auto split: option.splits)
  from download_names [OF one] obtain a1 where
    a1: "trace s1 = trace s @ a1"
        "\<forall>name bytes. EvOpenFile name \<in> set a1 \<or> EvWrite name bytes \<in> set a1 \<longrightarrow> name = Name rf" by blast
  from Cons.IH [OF more] obtain a2 where
    a2: "trace s' = trace s1 @ a2"
        "\<forall>name bytes. EvOpenFile name \<in> set a2 \<or> EvWrite name bytes \<in> set a2 \<longrightarrow> name \<in> Name ` set rest" by blast
  have "trace s' = trace s @ (a1 @ a2)" using a1 a2 by simp
  moreover have "\<forall>name bytes. EvOpenFile name \<in> set (a1 @ a2) \<or> EvWrite name bytes \<in> set (a1 @ a2)
                  \<longrightarrow> name \<in> Name ` set (rf # rest)"
    using a1(2) a2(2) by (simp only: set_append Un_iff list.set image_insert insert_iff) blast
  ultimately show ?case by blast
qed

lemma updateFiles_stages:
  assumes "updateFiles e s = Some s'" and "snd (fst (getRepositoryContent e)) \<noteq> []"
  shows "\<exists>dl dirs checked s1 n s2.
           checkExisting e (fs s) (snd (fst (getRepositoryContent e))) ([], [], [Println [[]]])
             = Some (dl, dirs, checked)
           \<and> pruneDirs e (snd (fst (getRepositoryContent e))) dirs
                (s\<lparr>trace := trace s @ Println [''Repository:'', repoURL e] # snd (getRepositoryContent e)
                       @ checked @ [Println [[]], Println [''Pruning non-repository files'']]\<rparr>) = Some s1
           \<and> downloadAll e (fst (fst (getRepositoryContent e))) dl (0, s1\<lparr>trace := trace s1 @ [Println [[]]]\<rparr>)
                = Some (n, s2)
           \<and> fs s' = fs s2
           \<and> (\<exists>final. trace s' = trace s2 @ final \<and> list_all (\<lambda>ev. \<not> touchesFiles ev) final)"
proof -
  obtain root list fetched where g: "getRepositoryContent e = ((root, list), fetched)"
    by (cases "getRepositoryContent e") auto
  from assms g show ?thesis
    by (auto simp: updateFiles_def Let_def Println_def split: option.splits)
qed

lemma quiet_events:
  assumes "list_all (\<lambda>ev. \<not> touchesFiles ev) xs"
  shows "EvOpen p \<notin> set xs" "EvOpenFile p \<notin> set xs" "EvWrite p b \<notin> set xs"
        "EvStat p \<notin> set xs" "EvWalk p \<notin> set xs" "EvRemoveAll p \<notin> set xs"
  using assms by (auto simp: list_all_iff)

lemma check_events:
  assumes "list_all checkEvent xs"
  shows "EvOpenFile p \<notin> set xs" "EvWrite p b \<notin> set xs" "EvStat p \<notin> set xs" "EvWalk p \<notin> set xs"
        "EvRemoveAll p \<notin> set xs"
  using assms by (auto simp: list_all_iff)

lemma prune_events:
  assumes "list_all pruneEvent xs"
  shows "EvOpen p \<notin> set xs" "EvOpenFile p \<notin> set xs" "EvWrite p b \<notin> set xs"
  using assms by (auto simp: list_all_iff)

lemma download_events_only:
  assumes "list_all downloadEvent xs"
  shows "EvOpen p \<notin> set xs" "EvStat p \<notin> set xs" "EvWalk p \<notin> set xs" "EvRemoveAll p \<notin> set xs"
  using assms by (auto simp: list_all_iff)

lemma opened_names:
  assumes "filter isOpen xs = map (\<lambda>rf. EvOpen (Name rf)) ys" and "EvOpen p \<in> set xs"
  shows "p \<in> Name ` set ys"
proof -
  from assms(2) have "EvOpen p \<in> set (filter isOpen xs)" by simp
  with assms(1) show ?thesis by auto
qed

lemma updateFiles_calls:
  assumes run: "updateFiles e s = Some s'"
    and ne: "snd (fst (getRepositoryContent e)) \<noteq> []"
  shows "\<exists>added. trace s' = trace s @ added
     \<and> (\<forall>p. EvOpen p \<in> set added \<longrightarrow>
            p \<in> Name ` {rf \<in> set (snd (fst (getRepositoryContent e))). fst (HasValidPath (Getwd e) rf)})
     \<and> (\<forall>p bytes. EvOpenFile p \<in> set added \<or> EvWrite p bytes \<in> set added \<longrightarrow>
            p \<in> Name ` {rf \<in> set (snd (fst (getRepositoryContent e))). fst (HasValidPath (Getwd e) rf)})
     \<and> (\<forall>d. EvStat d \<in> set added \<or> EvWalk d \<in> set added \<longrightarrow>
            d \<in> (\<lambda>rf. Split CHR ''/'' (Name rf) ! 0) `
                  {rf \<in> set (snd (fst (getRepositoryContent e))). fst (HasValidPath (Getwd e) rf)})"
proof -
  define list where "list = snd (fst (getRepositoryContent e))"
  define valid where "valid = {rf \<in> set list. fst (HasValidPath (Getwd e) rf)}"
  define pre where "pre = Println [''Repository:'', repoURL e] # snd (getRepositoryContent e)"
  from updateFiles_stages [OF run ne] obtain dl dirs checked s1 n s2 final where
    c: "checkExisting e (fs s) list ([], [], [Println [[]]]) = Some (dl, dirs, checked)"
    and p: "pruneDirs e list dirs
              (s\<lparr>trace := trace s @ pre @ checked @ [Println [[]], Println [''Pruning non-repository files'']]\<rparr>)
            = Some s1"
    and d: "downloadAll e (fst (fst (getRepositoryContent e))) dl (0, s1\<lparr>trace := trace s1 @ [Println [[]]]\<rparr>)
            = Some (n, s2)"
    and fin: "trace s' = trace s2 @ final" "list_all (\<lambda>ev. \<not> touchesFiles ev) final"
    unfolding list_def pre_def by auto
  have qpre: "list_all (\<lambda>ev. \<not> touchesFiles ev) pre"
    using getRepositoryContent_quiet [of e] by (simp add: pre_def Println_def)
  from checkExisting_trace [OF c] obtain ca where
    ca: "checked = [Println [[]]] @ ca" "list_all checkEvent ca"
        "filter isOpen ca = map (\<lambda>rf. EvOpen (Name rf)) (filter (\<lambda>rf. fst (HasValidPath (Getwd e) rf)) list)"
    by blast
  have cev: "list_all checkEvent checked" using ca by (simp add: Println_def)
  have cop: "filter isOpen checked = map (\<lambda>rf. EvOpen (Name rf)) (filter (\<lambda>rf. fst (HasValidPath (Getwd e) rf)) list)"
    using ca by (simp add: Println_def)
  from checkExisting_result [OF c] have
    dl: "set dl \<subseteq> valid" and dirs: "set dirs = (\<lambda>rf. Split CHR ''/'' (Name rf) ! 0) ` valid"
    by (auto simp: valid_def)
  from pruneDirs_trace [OF p] obtain pa where
    pa: "trace s1 = (trace s @ pre @ checked @ [Println [[]], Println [''Pruning non-repository files'']]) @ pa"
        "list_all pruneEvent pa"
    by auto
  from pruneDirs_scans [OF p] obtain pa' where
    pa': "trace s1 = (trace s @ pre @ checked @ [Println [[]], Println [''Pruning non-repository files'']]) @ pa'"
         "\<forall>d. EvStat d \<in> set pa' \<or> EvWalk d \<in> set pa' \<longrightarrow> d \<in> set dirs"
    by auto
  have "pa' = pa" using pa(1) pa'(1) by simp
  with pa' have scans: "\<forall>d. EvStat d \<in> set pa \<or> EvWalk d \<in> set pa \<longrightarrow> d \<in> set dirs" by simp
  from downloadAll_events [OF d] obtain da where
    da: "trace s2 = (trace s1 @ [Println [[]]]) @ da" "list_all downloadEvent da"
    by auto
  from downloadAll_names [OF d] obtain da' where
    da': "trace s2 = (trace s1 @ [Println [[]]]) @ da'"
         "\<forall>name bytes. EvOpenFile name \<in> set da' \<or> EvWrite name bytes \<in> set da' \<longrightarrow> name \<in> Name ` set dl"
    by auto
  have "da' = da" using da(1) da'(1) by simp
  with da' have names: "\<forall>name bytes. EvOpenFile name \<in> set da \<or> EvWrite name bytes \<in> set da \<longrightarrow> name \<in> Name ` set dl"
    by simp
  define mid where "mid = [Println [[]], Println [''Pruning non-repository files'']]"
  have qmid: "list_all (\<lambda>ev. \<not> touchesFiles ev) mid" "list_all (\<lambda>ev. \<not> touchesFiles ev) [Println [[]]]"
    by (simp_all add: mid_def Println_def)
  define added where "added = pre @ checked @ mid @ pa @ [Println [[]]] @ da @ final"
  have t: "trace s' = trace s @ added"
    using fin(1) da(1) pa(1) by (simp add: added_def mid_def)
  have mem: "x \<in> set added \<longleftrightarrow> x \<in> set pre \<or> x \<in> set checked \<or> x \<in> set mid \<or> x \<in> set pa
                \<or> x \<in> set [Println [[]]] \<or> x \<in> set da \<or> x \<in> set final" for x
    by (auto simp: added_def)
  have o: "\<forall>p. EvOpen p \<in> set added \<longrightarrow> p \<in> Name ` valid"
  proof (intro allI impI)
    fix p assume "EvOpen p \<in> set added"
    then have "EvOpen p \<in> set checked"
      using quiet_events(1) [OF qpre] quiet_events(1) [OF qmid(1)] quiet_events(1) [OF qmid(2)]
            quiet_events(1) [OF fin(2)] prune_events(1) [OF pa(2)] download_events_only(1) [OF da(2)]
      unfolding mem by blast
    from opened_names [OF cop this] show "p \<in> Name ` valid" by (simp add: valid_def)
  qed
  have w: "\<forall>p bytes. EvOpenFile p \<in> set added \<or> EvWrite p bytes \<in> set added \<longrightarrow> p \<in> Name ` valid"
  proof (intro allI impI)
    fix p bytes assume "EvOpenFile p \<in> set added \<or> EvWrite p bytes \<in> set added"
    then have "EvOpenFile p \<in> set da \<or> EvWrite p bytes \<in> set da"
      using quiet_events(2,3) [OF qpre] quiet_events(2,3) [OF qmid(1)] quiet_events(2,3) [OF qmid(2)]
            quiet_events(2,3) [OF fin(2)] prune_events(2,3) [OF pa(2)] check_events(1,2) [OF cev]
      unfolding mem by blast
    with names have "p \<in> Name ` set dl" by blast
    with dl show "p \<in> Name ` valid" by blast
  qed
  have sc: "\<forall>d. EvStat d \<in> set added \<or> EvWalk d \<in> set added \<longrightarrow> d \<in> (\<lambda>rf. Split CHR ''/'' (Name rf) ! 0) ` valid"
  proof (intro allI impI)
    fix d assume "EvStat d \<in> set added \<or> EvWalk d \<in> set added"
    then have "EvStat d \<in> set pa \<or> EvWalk d \<in> set pa"
      using quiet_events(4,5) [OF qpre] quiet_events(4,5) [OF qmid(1)] quiet_events(4,5) [OF qmid(2)]
            quiet_events(4,5) [OF fin(2)] download_events_only(2,3) [OF da(2)] check_events(3,4) [OF cev]
      unfolding mem by blast
    with scans dirs show "d \<in> (\<lambda>rf. Split CHR ''/'' (Name rf) ! 0) ` valid" by blast
  qed
  from t o w sc show ?thesis unfolding valid_def list_def by blast
qed

section \<open>A run that prunes beside the working directory\<close>

lemma sibling_manifests:
  "getRepositoryContent (exampleEnv manifestWithInvalid server locked)
     = ((''http://host/'',
         [\<lparr>Name = ''../u/a.txt'', Hash = ''61''\<rparr>, \<lparr>Name = ''../v/f'', Hash = ''66''\<rparr>]),
        [EvGet ''http://host/updater.json''])"
  "getRepositoryContent (exampleEnv manifestWithoutInvalid server locked)
     = ((''http://host/'', [\<lparr>Name = ''../u/a.txt'', Hash = ''61''\<rparr>]),
        [EvGet ''http://host/updater.json''])"
  by (simp_all add: getRepositoryContent_def exampleEnv_fields manifestWithInvalid_def
        manifestWithoutInvalid_def manifestDoc_def fileEntry_def unmarshalMember_def asciiLower_def Let_def)

lemma sibling_valid:
  "HasValidPath (Some ''/home/u'') \<lparr>Name = ''../u/a.txt'', Hash = h\<rparr> = (True, [])"
  "HasValidPath (Some ''/home/u'') \<lparr>Name = ''../v/f'', Hash = h\<rparr> = (False, [])"
  by (simp_all add: HasValidPath_def Abs_def IsAbs_def Join_def Clean_def cleanElems_def)

lemma sibling_resolve:
  "resolve (Some ''/home/u'') ''..'' = Some [''home'']"
  "resolve (Some ''/home/u'') ''../u/a.txt'' = Some [''home'', ''u'', ''a.txt'']"
  "resolve (Some ''/home/u'') ''../v/f'' = Some [''home'', ''v'', ''f'']"
  "resolve (Some ''/home/u'') ''../v/g'' = Some [''home'', ''v'', ''g'']"
  by (simp_all add: resolve_def Abs_def IsAbs_def Join_def Clean_def cleanElems_def)

lemma sibling_check:
  "checkExisting (exampleEnv doc server unlocked) siblingTree
     [\<lparr>Name = ''../u/a.txt'', Hash = ''61''\<rparr>, \<lparr>Name = ''../v/f'', Hash = ''66''\<rparr>] ([], [], out)
   = Some ([], [''..''], out @ [Print ''../u/a.txt : '', EvOpen ''../u/a.txt'', Println [''OK'']])"
  "checkExisting (exampleEnv doc server unlocked) siblingTree
     [\<lparr>Name = ''../u/a.txt'', Hash = ''61''\<rparr>] ([], [], out)
   = Some ([], [''..''], out @ [Print ''../u/a.txt : '', EvOpen ''../u/a.txt'', Println [''OK'']])"
  by (simp_all add: checkEntry_def exampleEnv_fields sibling_valid sibling_resolve osOpen_def
        lookupNode_def siblingTree_def CheckHash_def example_hash hexDigit_def unlocked_def Let_def)

lemma sibling_walk:
  "filepathWalk (exampleEnv doc server locked) siblingTree ''..''
     = Some [(''..'', True), (''../u'', True), (''../u/a.txt'', False), (''../v'', True),
             (''../v/f'', False), (''../v/g'', False)]"
  by (simp add: filepathWalk_def exampleEnv_fields sibling_resolve lookupNode_def siblingTree_def
        walkPath_def Join_def Clean_def IsAbs_def cleanElems_def)

lemma sibling_prune:
  "pruneDirs (exampleEnv doc server unlocked)
     [\<lparr>Name = ''../u/a.txt'', Hash = ''61''\<rparr>, \<lparr>Name = ''../v/f'', Hash = ''66''\<rparr>] [''..'']
     \<lparr>fs = siblingTree, trace = t\<rparr>
   = Some \<lparr>fs = [([''home''], Directory), ([''home'', ''u''], Directory),
                 ([''home'', ''u'', ''a.txt''], File [0x61]), ([''home'', ''v''], Directory),
                 ([''home'', ''v'', ''f''], File [0x66])],
           trace = t @ [EvStat ''..'', EvWalk ''..'', Println [''Removing'', ''../v/g''],
                        EvRemoveAll ''../v/g'']\<rparr>"
  "pruneDirs (exampleEnv doc server unlocked)
     [\<lparr>Name = ''../u/a.txt'', Hash = ''61''\<rparr>] [''..'']
     \<lparr>fs = siblingTree, trace = t\<rparr>
   = Some \<lparr>fs = [([''home''], Directory), ([''home'', ''u''], Directory),
                 ([''home'', ''u'', ''a.txt''], File [0x61]), ([''home'', ''v''], Directory)],
           trace = t @ [EvStat ''..'', EvWalk ''..'', Println [''Removing'', ''../v/f''],
                        EvRemoveAll ''../v/f'', Println [''Removing'', ''../v/g''],
                        EvRemoveAll ''../v/g'']\<rparr>"
  by (simp_all add: pruneDir_def sibling_walk osStat_def exampleEnv_fields sibling_resolve
        lookupNode_def pruneVisit_def belongsToRepo_def ToSlash_def osRemoveAll_def unlocked_def Let_def)
     (simp_all add: siblingTree_def)

lemma sibling_run_with:
  "updateFiles (exampleEnv manifestWithInvalid offline unlocked) \<lparr>fs = siblingTree, trace = []\<rparr>
   = Some \<lparr>fs = [([''home''], Directory), ([''home'', ''u''], Directory),
                 ([''home'', ''u'', ''a.txt''], File [0x61]), ([''home'', ''v''], Directory),
                 ([''home'', ''v'', ''f''], File [0x66])],
           trace =
             [Println [''Repository:'', ''http://host/updater.json''], EvGet ''http://host/updater.json'',
              Println [[]], Print ''../u/a.txt : '', EvOpen ''../u/a.txt'', Println [''OK''],
              Println [[]], Println [''Pruning non-repository files''],
              EvStat ''..'', EvWalk ''..'', Println [''Removing'', ''../v/g''], EvRemoveAll ''../v/g'',
              Println [[]], Println [[]], Println [''Done :-)''], Println [[]],
              Println [''Press Enter to close'']]\<rparr>"
  by (simp add: updateFiles_def sibling_manifests sibling_check sibling_prune exampleEnv_fields
        del: checkExisting.simps pruneDirs.simps)

lemma sibling_run_without:
  "updateFiles (exampleEnv manifestWithoutInvalid offline unlocked) \<lparr>fs = siblingTree, trace = []\<rparr>
   = Some \<lparr>fs = [([''home''], Directory), ([''home'', ''u''], Directory),
                 ([''home'', ''u'', ''a.txt''], File [0x61]), ([''home'', ''v''], Directory)],
           trace =
             [Println [''Repository:'', ''http://host/updater.json''], EvGet ''http://host/updater.json'',
              Println [[]], Print ''../u/a.txt : '', EvOpen ''../u/a.txt'', Println [''OK''],
              Println [[]], Println [''Pruning non-repository files''],
              EvStat ''..'', EvWalk ''..'', Println [''Removing'', ''../v/f''], EvRemoveAll ''../v/f'',
              Println [''Removing'', ''../v/g''], EvRemoveAll ''../v/g'',
              Println [[]], Println [[]], Println [''Done :-)''], Println [[]],
              Println [''Press Enter to close'']]\<rparr>"
  by (simp add: updateFiles_def sibling_manifests sibling_check sibling_prune exampleEnv_fields
        del: checkExisting.simps pruneDirs.simps)

text \<open>
  Claim C2, on an input where it fails. The working directory is \<open>/home/u\<close>. The entry
  \<open>../v/f\<close> fails the path check. The entry \<open>../u/a.txt\<close> passes it and makes \<open>..\<close>
  a directory to prune, so the walk meets \<open>../v/f\<close> and \<open>../v/g\<close>. With the invalid
  entry in the manifest the file \<open>/home/v/f\<close> is kept; without it the file is removed:
  the entry that failed the check decides whether a walked file belongs to the
  repository.
\<close>

theorem invalid_entry_decides_pruning:
  "fst (HasValidPath (Getwd (exampleEnv manifestWithInvalid offline unlocked))
          \<lparr>Name = ''../v/f'', Hash = ''66''\<rparr>) = False
   \<and> map_option fs (updateFiles (exampleEnv manifestWithInvalid offline unlocked)
                       \<lparr>fs = siblingTree, trace = []\<rparr>)
       = Some [([''home''], Directory), ([''home'', ''u''], Directory),
               ([''home'', ''u'', ''a.txt''], File [0x61]), ([''home'', ''v''], Directory),
               ([''home'', ''v'', ''f''], File [0x66])]
   \<and> map_option fs (updateFiles (exampleEnv manifestWithoutInvalid offline unlocked)
                       \<lparr>fs = siblingTree, trace = []\<rparr>)
       = Some [([''home''], Directory), ([''home'', ''u''], Directory),
               ([''home'', ''u'', ''a.txt''], File [0x61]), ([''home'', ''v''], Directory)]"
  by (simp add: sibling_run_with sibling_run_without sibling_valid exampleEnv_fields)

text \<open>
  Claim C2, amended. In a run that returns, an entry of the manifest that fails the
  path check is never opened, and no file is created or written under its name; the
  directories that the pruning loop looks at and walks are first path elements of
  entries that pass the check. The name of the entry still counts when the walk
  decides whether a file belongs to the repository.
\<close>

theorem invalid_entry_only_counts_in_prune_match:
  assumes "updateFiles e s = Some s'"
    and "rf \<in> set (snd (fst (getRepositoryContent e)))"
    and "\<not> fst (HasValidPath (Getwd e) rf)"
  shows "\<exists>added. trace s' = trace s @ added
           \<and> EvOpen (Name rf) \<notin> set added
           \<and> EvOpenFile (Name rf) \<notin> set added
           \<and> (\<forall>bytes. EvWrite (Name rf) bytes \<notin> set added)
           \<and> (\<forall>d. EvStat d \<in> set added \<or> EvWalk d \<in> set added \<longrightarrow>
                  (\<exists>rf'. rf' \<in> set (snd (fst (getRepositoryContent e)))
                      \<and> fst (HasValidPath (Getwd e) rf') \<and> d = Split CHR ''/'' (Name rf') ! 0))
           \<and> belongsToRepo (snd (fst (getRepositoryContent e))) (Name rf)"
proof -
  have ne: "snd (fst (getRepositoryContent e)) \<noteq> []" using assms(2) by auto
  from updateFiles_calls [OF assms(1) ne] obtain added where
    t: "trace s' = trace s @ added"
    and o: "\<forall>p. EvOpen p \<in> set added \<longrightarrow>
            p \<in> Name ` {rf \<in> set (snd (fst (getRepositoryContent e))). fst (HasValidPath (Getwd e) rf)}"
    and w: "\<forall>p bytes. EvOpenFile p \<in> set added \<or> EvWrite p bytes \<in> set added \<longrightarrow>
            p \<in> Name ` {rf \<in> set (snd (fst (getRepositoryContent e))). fst (HasValidPath (Getwd e) rf)}"
    and sc: "\<forall>d. EvStat d \<in> set added \<or> EvWalk d \<in> set added \<longrightarrow>
            d \<in> (\<lambda>rf. Split CHR ''/'' (Name rf) ! 0) `
                  {rf \<in> set (snd (fst (getRepositoryContent e))). fst (HasValidPath (Getwd e) rf)}"
    by blast
  have notin: "Name rf \<notin> Name ` {rf \<in> set (snd (fst (getRepositoryContent e))). fst (HasValidPath (Getwd e) rf)}"
  proof
    assume "Name rf \<in> Name ` {rf \<in> set (snd (fst (getRepositoryContent e))). fst (HasValidPath (Getwd e) rf)}"
    then obtain rf' where "Name rf = Name rf'" "fst (HasValidPath (Getwd e) rf')" by auto
    with HasValidPath_Name [of rf rf' "Getwd e"] assms(3) show False by simp
  qed
  have 1: "EvOpen (Name rf) \<notin> set added" using o notin by blast
  have 2: "EvOpenFile (Name rf) \<notin> set added" using w notin by blast
  have 3: "\<forall>bytes. EvWrite (Name rf) bytes \<notin> set added" using w notin by blast
  have 4: "\<forall>d. EvStat d \<in> set added \<or> EvWalk d \<in> set added \<longrightarrow>
                  (\<exists>rf'. rf' \<in> set (snd (fst (getRepositoryContent e)))
                      \<and> fst (HasValidPath (Getwd e) rf') \<and> d = Split CHR ''/'' (Name rf') ! 0)"
    using sc by blast
  have 5: "belongsToRepo (snd (fst (getRepositoryContent e))) (Name rf)"
    using assms(2) by (auto simp: belongsToRepo_iff)
  from t 1 2 3 4 5 show ?thesis by blast
qed

theorem invalid_entry_only_counts_in_prune_match_witness:
  "\<exists>added.
     [Println [''Repository:'', ''http://host/updater.json''], EvGet ''http://host/updater.json'',
      Println [[]], Print ''../u/a.txt : '', EvOpen ''../u/a.txt'', Println [''OK''],
      Println [[]], Println [''Pruning non-repository files''],
      EvStat ''..'', EvWalk ''..'', Println [''Removing'', ''../v/g''], EvRemoveAll ''../v/g'',
      Println [[]], Println [[]], Println [''Done :-)''], Println [[]],
      Println [''Press Enter to close'']] = added
     \<and> EvOpen ''../v/f'' \<notin> set added
     \<and> EvOpenFile ''../v/f'' \<notin> set added
     \<and> belongsToRepo [\<lparr>Name = ''../u/a.txt'', Hash = ''61''\<rparr>, \<lparr>Name = ''../v/f'', Hash = ''66''\<rparr>] ''../v/f''"
  using invalid_entry_only_counts_in_prune_match
    [OF sibling_run_with, of "\<lparr>Name = ''../v/f'', Hash = ''66''\<rparr>"]
  by (simp add: sibling_manifests sibling_valid exampleEnv_fields)

section \<open>Building a manifest and checking it against the same tree\<close>

text \<open>An entry as the builder writes it: a path and the digest that \<^verbatim>\<open>calculateHash\<close>
  returns for the file that \<^verbatim>\<open>os.Open\<close> opens at this path.\<close>

lemma repoVisit_built:
  assumes "repoVisit e files visit (entries, out) = Some ((entries', out'), goOn)"
    and "\<forall>entry \<in> set entries. \<exists>p h fh. entry = [p, h] \<and> osOpen e files p = Opened fh
            \<and> calculateHash (sha1 e) fh = Some h"
  shows "\<forall>entry \<in> set entries'. \<exists>p h fh. entry = [p, h] \<and> osOpen e files p = Opened fh
            \<and> calculateHash (sha1 e) fh = Some h"
  using assms
  by (cases visit)
     (auto simp: repoVisit_def Let_def ToSlash_def split: if_splits openResult.splits option.splits)

lemma repoWalk_built:
  assumes "repoWalk e files visits (entries, out) = Some (entries', out')"
    and "\<forall>entry \<in> set entries. \<exists>p h fh. entry = [p, h] \<and> osOpen e files p = Opened fh
            \<and> calculateHash (sha1 e) fh = Some h"
  shows "\<forall>entry \<in> set entries'. \<exists>p h fh. entry = [p, h] \<and> osOpen e files p = Opened fh
            \<and> calculateHash (sha1 e) fh = Some h"
  using assms
proof (induction visits arbitrary: entries out)
  case Nil
  then show ?case by simp
next
  case (Cons visit visits)
  from Cons.prems(1) obtain entries1 out1 goOn where
    v: "repoVisit e files visit (entries, out) = Some ((entries1, out1), goOn)"
    by (auto split: option.splits)
  note b1 = repoVisit_built [OF v Cons.prems(2)]
  show ?case
  proof (cases goOn)
    case True
    with Cons.prems(1) v have "repoWalk e files visits (entries1, out1) = Some (entries', out')" by simp
    from Cons.IH [OF this b1] show ?thesis .
  next
    case False
    with Cons.prems(1) v have "entries' = entries1" by simp
    with b1 show ?thesis by simp
  qed
qed

lemma buildRepo_built:
  assumes "buildRepo e files directoryName = Some (newRepo, out)"
  shows "\<forall>entry \<in> set (Files newRepo). \<exists>p h fh. entry = [p, h] \<and> osOpen e files p = Opened fh
            \<and> calculateHash (sha1 e) fh = Some h"
proof -
  from assms obtain visits entries where
    w: "repoWalk e files visits ([], [EvWalk directoryName]) = Some (entries, out)"
    and r: "Files newRepo = entries"
    by (auto simp: buildRepo_def split: option.splits)
  from repoWalk_built [OF w] r show ?thesis by simp
qed

lemma checkEntry_built:
  assumes "osOpen e files (Name rf) = Opened fh" and "calculateHash (sha1 e) fh = Some (Hash rf)"
  shows "checkEntry e files rf (dl, dirs, out) =
           Some (dl,
                 if fst (HasValidPath (Getwd e) rf) \<and> \<not> stringInSlice (Split CHR ''/'' (Name rf) ! 0) dirs
                 then dirs @ [Split CHR ''/'' (Name rf) ! 0] else dirs,
                 out @ snd (HasValidPath (Getwd e) rf) @
                   (if fst (HasValidPath (Getwd e) rf)
                    then [Print (Name rf @ '' : ''), EvOpen (Name rf), Println [''OK'']] else []))"
  using assms
  by (cases "HasValidPath (Getwd e) rf") (auto simp: checkEntry_def Let_def CheckHash_def)

lemma checkExisting_built:
  assumes "\<forall>rf \<in> set list. \<exists>fh. osOpen e files (Name rf) = Opened fh
              \<and> calculateHash (sha1 e) fh = Some (Hash rf)"
  shows "\<exists>dirs'. checkExisting e files list (dl, dirs, out) =
           Some (dl, dirs',
                 out @ concat (map (\<lambda>rf. snd (HasValidPath (Getwd e) rf) @
                   (if fst (HasValidPath (Getwd e) rf)
                    then [Print (Name rf @ '' : ''), EvOpen (Name rf), Println [''OK'']] else [])) list))"
  using assms
proof (induction list arbitrary: dirs out)
  case Nil
  then show ?case by simp
next
  case (Cons rf rest)
  from Cons.prems obtain fh where
    h: "osOpen e files (Name rf) = Opened fh" "calculateHash (sha1 e) fh = Some (Hash rf)" by auto
  have r: "\<forall>rf \<in> set rest. \<exists>fh. osOpen e files (Name rf) = Opened fh
              \<and> calculateHash (sha1 e) fh = Some (Hash rf)" using Cons.prems by simp
  define dirs1 where "dirs1 =
    (if fst (HasValidPath (Getwd e) rf) \<and> \<not> stringInSlice (Split CHR ''/'' (Name rf) ! 0) dirs
     then dirs @ [Split CHR ''/'' (Name rf) ! 0] else dirs)"
  define out1 where "out1 = out @ snd (HasValidPath (Getwd e) rf) @
                   (if fst (HasValidPath (Getwd e) rf)
                    then [Print (Name rf @ '' : ''), EvOpen (Name rf), Println [''OK'']] else [])"
  have one: "checkEntry e files rf (dl, dirs, out) = Some (dl, dirs1, out1)"
    unfolding dirs1_def out1_def by (rule checkEntry_built [OF h])
  from Cons.IH [OF r, of dirs1 out1] obtain dirs' where
    more: "checkExisting e files rest (dl, dirs1, out1) =
           Some (dl, dirs',
                 out1 @ concat (map (\<lambda>rf. snd (HasValidPath (Getwd e) rf) @
                   (if fst (HasValidPath (Getwd e) rf)
                    then [Print (Name rf @ '' : ''), EvOpen (Name rf), Println [''OK'']] else [])) rest))"
    by blast
  have "checkExisting e files (rf # rest) (dl, dirs, out) = checkExisting e files rest (dl, dirs1, out1)"
    using one by simp
  with more show ?case by (simp add: out1_def)
qed

lemma readEntries_built:
  assumes "\<forall>entry \<in> set entries. length entry = 2"
  shows "fst (readEntries entries ([], [])) = map (\<lambda>entry. \<lparr>Name = entry ! 0, Hash = entry ! 1\<rparr>) entries"
proof -
  have "filter (\<lambda>entry. length entry = 2) entries = entries" using assms by (simp add: filter_id_conv)
  then show ?thesis by (simp add: readEntries_eq)
qed

lemma example_build:
  "buildRepo (exampleEnv doc server unlocked) exampleTree ''mods''
     = Some (\<lparr>DownloadRoot = ''https://koti.kapsi.fi/darkon/polloeskadroona/repo/'',
              Files = [[''mods/a.txt'', ''61''], [''mods/orphan.txt'', ''6f'']]\<rparr>,
             [EvWalk ''mods'', EvOpen ''mods/a.txt'', Println [''mods/a.txt'', '':'', ''61''],
              EvOpen ''mods/orphan.txt'', Println [''mods/orphan.txt'', '':'', ''6f'']])"
  by (simp add: buildRepo_def example_walk)
     (simp add: repoVisit_def osOpen_def exampleEnv_fields example_resolve
        example_resolve_orphan lookupNode_def unlocked_def example_hash hexDigit_def ToSlash_def Let_def
        exampleTree_def exampleFiles_def)

lemma outside_resolve:
  "resolve (Some ''/home/u'') ''/srv/repo'' = Some [''srv'', ''repo'']"
  "resolve (Some ''/home/u'') ''/srv/repo/a.txt'' = Some [''srv'', ''repo'', ''a.txt'']"
  by (simp_all add: resolve_def Abs_def IsAbs_def Join_def Clean_def cleanElems_def)

lemma outside_walk:
  "filepathWalk (exampleEnv doc server locked) outsideTree ''/srv/repo''
     = Some [(''/srv/repo'', True), (''/srv/repo/a.txt'', False)]"
  by (simp add: filepathWalk_def exampleEnv_fields outside_resolve lookupNode_def outsideTree_def
        walkPath_def Join_def Clean_def IsAbs_def cleanElems_def)

lemma outside_build:
  "buildRepo (exampleEnv doc server unlocked) outsideTree ''/srv/repo''
     = Some (\<lparr>DownloadRoot = ''https://koti.kapsi.fi/darkon/polloeskadroona/repo/'',
              Files = [[''/srv/repo/a.txt'', ''61'']]\<rparr>,
             [EvWalk ''/srv/repo'', EvOpen ''/srv/repo/a.txt'', Println [''/srv/repo/a.txt'', '':'', ''61'']])"
  by (simp add: buildRepo_def outside_walk)
     (simp add: repoVisit_def osOpen_def exampleEnv_fields outside_resolve
        lookupNode_def unlocked_def example_hash hexDigit_def ToSlash_def Let_def outsideTree_def)

lemma outside_invalid:
  "HasValidPath (Some ''/home/u'') \<lparr>Name = ''/srv/repo/a.txt'', Hash = h\<rparr> = (False, [])"
  by (simp add: HasValidPath_def Abs_def IsAbs_def Join_def Clean_def cleanElems_def)

text \<open>
  Claim C9, on an input where it fails. The working directory is \<open>/home/u\<close> and the
  manifest is built from the directory \<open>/srv/repo\<close>, which holds one file. Checked
  against the same tree, the entry of this file fails the path check and is skipped:
  the first loop prints no status for it and does not open it, so the entry is not
  classified as matching. (The list of files to download is empty.)
\<close>

theorem tree_outside_working_directory_not_matched:
  "buildRepo (exampleEnv None offline unlocked) outsideTree ''/srv/repo''
     = Some (\<lparr>DownloadRoot = ''https://koti.kapsi.fi/darkon/polloeskadroona/repo/'',
              Files = [[''/srv/repo/a.txt'', ''61'']]\<rparr>,
             [EvWalk ''/srv/repo'', EvOpen ''/srv/repo/a.txt'', Println [''/srv/repo/a.txt'', '':'', ''61'']])
   \<and> checkExisting (exampleEnv None offline unlocked) outsideTree
        (fst (readEntries [[''/srv/repo/a.txt'', ''61'']] ([], []))) ([], [], [])
     = Some ([], [], [])"
  by (simp add: outside_build checkEntry_def exampleEnv_fields outside_invalid)

text \<open>
  Claim C9, amended. Let the builder make a manifest from a directory, and let the first
  loop of the reconciler run on the entries of this manifest, in the same environment
  and on the same file system. Then the loop ends, no file is to be downloaded, and
  for every entry the loop either skips it, because it fails the path check, or opens
  it and prints \<open>OK\<close>. The manifest passes from one to the other as the list
  \<^verbatim>\<open>Files\<close>; its JSON form is not part of the statement.
\<close>

theorem built_manifest_matches:
  assumes "buildRepo e files directoryName = Some (newRepo, out)"
  shows "\<exists>directoriesToPrune.
           checkExisting e files (fst (readEntries (Files newRepo) ([], []))) ([], [], checked)
             = Some ([], directoriesToPrune,
                  checked @ concat (map (\<lambda>rf. snd (HasValidPath (Getwd e) rf) @
                     (if fst (HasValidPath (Getwd e) rf)
                      then [Print (Name rf @ '' : ''), EvOpen (Name rf), Println [''OK'']] else []))
                     (fst (readEntries (Files newRepo) ([], [])))))"
proof -
  note b = buildRepo_built [OF assms]
  have len: "\<forall>entry \<in> set (Files newRepo). length entry = 2" using b by auto
  have list: "fst (readEntries (Files newRepo) ([], []))
                = map (\<lambda>entry. \<lparr>Name = entry ! 0, Hash = entry ! 1\<rparr>) (Files newRepo)"
    by (rule readEntries_built [OF len])
  have "\<forall>rf \<in> set (fst (readEntries (Files newRepo) ([], []))).
          \<exists>fh. osOpen e files (Name rf) = Opened fh \<and> calculateHash (sha1 e) fh = Some (Hash rf)"
    unfolding list using b by auto
  from checkExisting_built [OF this] show ?thesis .
qed

theorem built_manifest_matches_witness:
  "\<exists>directoriesToPrune.
     checkExisting (exampleEnv None offline unlocked) exampleTree
       [\<lparr>Name = ''mods/a.txt'', Hash = ''61''\<rparr>, \<lparr>Name = ''mods/orphan.txt'', Hash = ''6f''\<rparr>] ([], [], [])
     = Some ([], directoriesToPrune,
          [Print ''mods/a.txt : '', EvOpen ''mods/a.txt'', Println [''OK''],
           Print ''mods/orphan.txt : '', EvOpen ''mods/orphan.txt'', Println [''OK'']])"
proof -
  have v: "HasValidPath (Some ''/home/u'') \<lparr>Name = ''mods/orphan.txt'', Hash = ''6f''\<rparr> = (True, [])"
    by (simp add: HasValidPath_def Abs_def IsAbs_def Join_def Clean_def cleanElems_def)
  show ?thesis
    using built_manifest_matches [OF example_build, of None offline "[]"]
    by (simp add: exampleEnv_fields example_valid v del: checkExisting.simps)
qed

section \<open>Paths of walked files\<close>



lemma Split_elems: "x \<in> set (Split sep s) \<Longrightarrow> sep \<notin> set x"
proof (induction s arbitrary: x)
  case Nil
  then show ?case by simp
next
  case (Cons c s)
  obtain p ps where s: "Split sep s = p # ps" using Split_not_Nil [of sep s] by (cases "Split sep s") auto
  with Cons show ?case by (auto split: if_splits)
qed


lemma joinSlash_relative:
  assumes "xs \<noteq> []" and "\<forall>x \<in> set xs. x \<noteq> [] \<and> CHR ''/'' \<notin> set x"
  shows "joinSlash xs \<noteq> [] \<and> \<not> IsAbs (joinSlash xs)"
proof (cases xs)
  case Nil
  with assms show ?thesis by simp
next
  case (Cons p ps)
  with assms obtain c cs where p: "p = c # cs" "c \<noteq> CHR ''/''" by (cases p) auto
  show ?thesis
  proof (cases ps)
    case Nil
    with Cons p show ?thesis by (simp add: IsAbs_def)
  next
    case (Cons q qs)
    with \<open>xs = p # ps\<close> p show ?thesis by (simp add: IsAbs_def)
  qed
qed



lemma cleanStep_cases:
  "cleanStep r out c = out \<or> cleanStep r out c = tl out
     \<or> (cleanStep r out c = c # out \<and> c \<noteq> [] \<and> c \<noteq> ''.'')"
  by (cases out) simp_all


lemma cleanStep_kept:
  assumes "\<forall>x \<in> set out. x \<noteq> [] \<and> x \<noteq> ''.'' \<and> CHR ''/'' \<notin> set x" and "CHR ''/'' \<notin> set c"
  shows "\<forall>x \<in> set (cleanStep r out c). x \<noteq> [] \<and> x \<noteq> ''.'' \<and> CHR ''/'' \<notin> set x"
proof -
  have t: "set (tl out) \<subseteq> set out" by (cases out) auto
  from cleanStep_cases [of r out c] show ?thesis
  proof (elim disjE conjE)
    assume "cleanStep r out c = out"
    with assms show ?thesis by simp
  next
    assume "cleanStep r out c = tl out"
    with assms t show ?thesis by (simp only:) blast
  next
    assume "cleanStep r out c = c # out" "c \<noteq> []" "c \<noteq> ''.''"
    with assms show ?thesis by (simp only: list.set) blast
  qed
qed

lemma foldl_cleanStep_kept:
  assumes "\<forall>x \<in> set out. x \<noteq> [] \<and> x \<noteq> ''.'' \<and> CHR ''/'' \<notin> set x" and "\<forall>c \<in> set cs. CHR ''/'' \<notin> set c"
  shows "\<forall>x \<in> set (foldl (cleanStep r) out cs). x \<noteq> [] \<and> x \<noteq> ''.'' \<and> CHR ''/'' \<notin> set x"
  using assms
proof (induction cs arbitrary: out)
  case Nil
  then show ?case by (simp only: foldl.simps)
next
  case (Cons c cs)
  have c: "CHR ''/'' \<notin> set c" and cs: "\<forall>c \<in> set cs. CHR ''/'' \<notin> set c"
    using Cons.prems(2) by (simp_all only: list.set) blast+
  from Cons.IH [OF cleanStep_kept [OF Cons.prems(1) c] cs] show ?case by (simp only: foldl.simps)
qed
















lemma Clean_not_Nil: "Clean p \<noteq> []"
proof (cases "p = [] \<or> IsAbs p \<or> cleanElems False p = []")
  case True
  then show ?thesis by (auto simp: Clean_def)
next
  case False
  have e: "\<forall>x \<in> set ([] :: string list). x \<noteq> [] \<and> x \<noteq> ''.'' \<and> CHR ''/'' \<notin> set x" by simp
  have "\<forall>c \<in> set (Split CHR ''/'' p). CHR ''/'' \<notin> set c" using Split_elems by blast
  from foldl_cleanStep_kept [OF e this, of False]
  have "\<forall>x \<in> set (cleanElems False p). x \<noteq> [] \<and> CHR ''/'' \<notin> set x"
    unfolding cleanElems_def set_rev by blast
  from joinSlash_relative [OF _ this] False show ?thesis by (simp add: Clean_def)
qed


lemma Join_not_Nil: "p \<noteq> [] \<Longrightarrow> Join [p, n] \<noteq> []"
  by (simp add: Join_def Clean_not_Nil)



section \<open>What pruning removes\<close>





















end
